theory Spec2Isabelle
  imports Main "HOL-Library.FSet"
begin

section \<open>Python values used by ing2ofx.py\<close>

text \<open>
  The script is Python 2: a \<open>str\<close> is a byte string, modelled as \<^typ>\<open>string\<close>
  (a list of 8-bit characters). Exceptions are values of \<open>py_error\<close>; a function that can
  raise returns \<open>py_error + 'a\<close> with \<open>Inl\<close> for the exception.
\<close>

datatype py_error = KeyError | ValueError

text \<open>\<open>\d\<close> and \<open>[0-9]\<close> of a byte-string pattern: the ten ASCII digits.\<close>

definition is_digit :: "char \<Rightarrow> bool" where
  "is_digit c = (c \<in> set ''0123456789'')"

text \<open>The characters \<open>str.strip()\<close> removes: space, tab, newline, vertical tab, form feed, return.\<close>

definition is_space :: "char \<Rightarrow> bool" where
  "is_space c = (c \<in> set [CHR '' '', CHR 0x09, CHR 0x0A, CHR 0x0B, CHR 0x0C, CHR 0x0D])"

text \<open>\<open>s.strip()\<close>\<close>

definition strip :: "string \<Rightarrow> string" where
  "strip s = rev (dropWhile is_space (rev (dropWhile is_space s)))"

text \<open>\<open>s.replace(old, new)\<close> for a one-character \<open>old\<close>: one left-to-right pass.\<close>

definition str_replace :: "char \<Rightarrow> string \<Rightarrow> string \<Rightarrow> string" where
  "str_replace old new s = concat (map (\<lambda>c. if c = old then new else [c]) s)"

text \<open>
  \<open>re.sub(p, repl, s)\<close> where \<open>p\<close> matches a run of at least \<open>n\<close> spaces, \<open>n \<ge> 1\<close>
  (\<open>' +'\<close> is \<open>n = 1\<close>, \<open>'  +'\<close> is \<open>n = 2\<close>): scanning from the left, a maximal run of
  spaces that is long enough is replaced by \<open>repl\<close>, every other character is copied.
\<close>

function re_sub_spaces :: "nat \<Rightarrow> string \<Rightarrow> string \<Rightarrow> string" where
  "re_sub_spaces n repl [] = []"
| "re_sub_spaces n repl (c # cs) =
     (if c = CHR '' '' \<and> n \<le> Suc (length (takeWhile (\<lambda>x. x = CHR '' '') cs))
      then repl @ re_sub_spaces n repl (dropWhile (\<lambda>x. x = CHR '' '') cs)
      else c # re_sub_spaces n repl cs)"
  by pat_completeness auto
termination
  by (relation "measure (\<lambda>(n, repl, s). length s)")
     (auto simp: length_dropWhile_le less_Suc_eq_le)

text \<open>\<open>d[k]\<close> on a dictionary raises \<open>KeyError\<close> for a missing key.\<close>

definition getitem :: "('k \<rightharpoonup> 'v) \<Rightarrow> 'k \<Rightarrow> py_error + 'v" where
  "getitem d k = (case d k of None \<Rightarrow> Inl KeyError | Some v \<Rightarrow> Inr v)"

text \<open>Sequencing of statements that may raise.\<close>

definition bind_err :: "py_error + 'a \<Rightarrow> ('a \<Rightarrow> py_error + 'b) \<Rightarrow> py_error + 'b" where
  "bind_err m f = (case m of Inl e \<Rightarrow> Inl e | Inr v \<Rightarrow> f v)"


text \<open>
  \<open>str(i)\<close> of an integer, also what \<open>format\<close> writes for it: the decimal digits, with
  \<open>-\<close> in front of a negative number.
\<close>

definition digit_char :: "nat \<Rightarrow> char" where
  "digit_char n = ''0123456789'' ! n"

fun digits_of :: "nat \<Rightarrow> string" where
  "digits_of n = (if n < 10 then [digit_char n] else digits_of (n div 10) @ [digit_char (n mod 10)])"

declare digits_of.simps [simp del]

definition str_int :: "int \<Rightarrow> string" where
  "str_int i = (if i < 0 then CHR ''-'' # digits_of (nat (- i)) else digits_of (nat i))"

text \<open>
  \<open>int(s)\<close> of a string: a non-empty string of digits is its decimal value. What \<open>int\<close>
  does with any other string (a sign, surrounding blanks, raising \<open>ValueError\<close>) is not
  fixed by this model: it is the parameter \<open>int_other\<close>.
\<close>

definition digit_val :: "char \<Rightarrow> nat" where
  "digit_val c = of_char c - 48"

definition dec_val :: "string \<Rightarrow> nat" where
  "dec_val s = foldl (\<lambda>a c. 10 * a + digit_val c) 0 s"

definition py_int :: "(string \<Rightarrow> py_error + int) \<Rightarrow> string \<Rightarrow> py_error + int" where
  "py_int int_other s =
     (if s \<noteq> [] \<and> list_all is_digit s then Inr (int (dec_val s)) else int_other s)"

text \<open>
  \<open>min\<close> and \<open>max\<close> of a generator whose items may raise: the items are computed one by
  one, the first one that raises ends the call, and an empty sequence is a \<open>ValueError\<close>.
\<close>

fun min_loop :: "int \<Rightarrow> (py_error + int) list \<Rightarrow> py_error + int" where
  "min_loop m [] = Inr m"
| "min_loop m (x # xs) = bind_err x (\<lambda>v. min_loop (if v < m then v else m) xs)"

fun py_min :: "(py_error + int) list \<Rightarrow> py_error + int" where
  "py_min [] = Inl ValueError"
| "py_min (x # xs) = bind_err x (\<lambda>v. min_loop v xs)"

fun max_loop :: "int \<Rightarrow> (py_error + int) list \<Rightarrow> py_error + int" where
  "max_loop m [] = Inr m"
| "max_loop m (x # xs) = bind_err x (\<lambda>v. max_loop (if v > m then v else m) xs)"

fun py_max :: "(py_error + int) list \<Rightarrow> py_error + int" where
  "py_max [] = Inl ValueError"
| "py_max (x # xs) = bind_err x (\<lambda>v. max_loop v xs)"


section \<open>Transaction type classifier\<close>

definition af_bij_codes :: "string set" where
  "af_bij_codes = {''DV'', ''OV'', ''VZ''}"

definition af_bij_map :: "string \<rightharpoonup> string" where
  "af_bij_map = [''Af'' \<mapsto> ''DEBIT'', ''Bij'' \<mapsto> ''CREDIT'']"

definition trn_codes :: "string \<rightharpoonup> string" where
  "trn_codes = [''GT'' \<mapsto> ''PAYMENT'', ''BA'' \<mapsto> ''POS'', ''GM'' \<mapsto> ''ATM'',
                ''IC'' \<mapsto> ''DIRECTDEBIT'', ''ST'' \<mapsto> ''DIRECTDEP'']"

definition ing_code_to_trntype :: "string \<Rightarrow> string \<Rightarrow> py_error + string" where
  "ing_code_to_trntype ing_code af_bij =
     (if ing_code \<in> af_bij_codes then getitem af_bij_map af_bij
      else Inr (case trn_codes ing_code of None \<Rightarrow> ''OTHER'' | Some v \<Rightarrow> v))"


section \<open>Field normalizer\<close>

definition get_transaction_amount :: "string \<Rightarrow> string \<Rightarrow> string" where
  "get_transaction_amount amount af_bij =
     (let amount' = str_replace CHR '','' ''.'' amount;
          sign = (if af_bij = ''Af'' then ''-'' else '''')
      in sign @ amount')"

definition fix_text :: "string \<Rightarrow> string" where
  "fix_text ing_text =
     (let text = strip (re_sub_spaces 2 '' '' ing_text)
      in str_replace CHR ''<'' ''&lt;''
           (str_replace CHR ''>'' ''&gt;'' (str_replace CHR ''&'' ''&amp;'' text)))"

text \<open>
  The pattern of \<open>extract_time\<close> is a sequence of one-character atoms with one optional
  group. \<open>match_atoms p s\<close> matches the atoms \<open>p\<close> at the start of \<open>s\<close> and returns the
  rest of the input.
\<close>

datatype re_atom = Digit | Lit char

fun atom_ok :: "re_atom \<Rightarrow> char \<Rightarrow> bool" where
  "atom_ok Digit c = is_digit c"
| "atom_ok (Lit l) c = (c = l)"

fun match_atoms :: "re_atom list \<Rightarrow> string \<Rightarrow> string option" where
  "match_atoms [] s = Some s"
| "match_atoms (a # as) [] = None"
| "match_atoms (a # as) (c # cs) = (if atom_ok a c then match_atoms as cs else None)"

text \<open>
  \<open>\d{2} ([0-9]{2}):([0-9]{2})\<close>, the part of the pattern after the optional group;
  the result is \<open>group(1) + group(2)\<close>.
\<close>

definition match_time :: "string \<Rightarrow> string option" where
  "match_time s =
     (case match_atoms [Digit, Digit, Lit CHR '' ''] s of
        None \<Rightarrow> None
      | Some s1 \<Rightarrow>
          (case match_atoms [Digit, Digit] s1 of
             None \<Rightarrow> None
           | Some s2 \<Rightarrow>
               (case match_atoms [Lit CHR '':''] s2 of
                  None \<Rightarrow> None
                | Some s3 \<Rightarrow>
                    (case match_atoms [Digit, Digit] s3 of
                       None \<Rightarrow> None
                     | Some s4 \<Rightarrow> Some (take 2 s1 @ take 2 s3)))))"

text \<open>
  The whole pattern at the start of \<open>s\<close>: \<open>\d{2}-\d{2}-\<close>, then the greedy optional group
  \<open>(?:20)?\<close> (first with \<open>20\<close> consumed, and on failure of the rest without it), then the
  rest.
\<close>

definition match_here :: "string \<Rightarrow> string option" where
  "match_here s =
     (case match_atoms [Digit, Digit, Lit CHR ''-'', Digit, Digit, Lit CHR ''-''] s of
        None \<Rightarrow> None
      | Some r \<Rightarrow>
          (case (case match_atoms [Lit CHR ''2'', Lit CHR ''0''] r of
                   None \<Rightarrow> None
                 | Some r' \<Rightarrow> match_time r') of
             Some g \<Rightarrow> Some g
           | None \<Rightarrow> match_time r))"

text \<open>\<open>re.search\<close>: the match at the leftmost position that has one.\<close>

fun re_search :: "string \<Rightarrow> string option" where
  "re_search [] = match_here []"
| "re_search (c # cs) = (case match_here (c # cs) of Some g \<Rightarrow> Some g | None \<Rightarrow> re_search cs)"

definition extract_time :: "string \<Rightarrow> string" where
  "extract_time memo = (case re_search memo of Some g \<Rightarrow> g | None \<Rightarrow> '''')"


section \<open>Unique ID assigner\<close>

text \<open>
  The \<open>while\<close> loop of \<open>make_unique_id\<close>, with the used IDs as a finite set. Its
  termination is proved below, after the lemmas on \<open>str_int\<close> it needs.
\<close>

function make_unique_id_loop :: "string \<Rightarrow> string fset \<Rightarrow> int \<Rightarrow> string \<Rightarrow> string" where
  "make_unique_id_loop fitid idslist idcount unique_id =
     (if unique_id |\<in>| idslist
      then make_unique_id_loop fitid idslist (idcount + 1) (fitid @ str_int (idcount + 1))
      else unique_id)"
  by pat_completeness auto

definition make_unique_id :: "string \<Rightarrow> string \<Rightarrow> string \<Rightarrow> string \<Rightarrow> string fset \<Rightarrow> string" where
  "make_unique_id accountto dtposted time trnamt idslist =
     (let fitid = accountto @ dtposted @ time
                    @ str_replace CHR ''.'' '''' (str_replace CHR ''-'' '''' trnamt)
      in make_unique_id_loop fitid idslist 0 fitid)"


section \<open>Reading the rows\<close>

text \<open>
  The dictionary built for a row (the keys of the source are the field names), and a row
  of the \<open>csv.DictReader\<close>: a dictionary from column names to strings. A column that is
  missing is a \<open>KeyError\<close>; every value is taken to be a string.
\<close>

record transaction =
  account :: string
  trntype :: string
  dtposted :: string
  trnamt :: string
  fitid :: string
  name :: string
  accountto :: string
  memo :: string

type_synonym row = "string \<rightharpoonup> string"

text \<open>
  The body of the \<open>for\<close> loop of \<open>read_csv_file\<close> up to the dictionary of the
  transaction, in the order of the source.
\<close>

definition row_transaction :: "row \<Rightarrow> string fset \<Rightarrow> py_error + transaction" where
  "row_transaction row idslist =
     bind_err (getitem row ''Rekening'') (\<lambda>rekening.
     bind_err (getitem row ''Code'') (\<lambda>code.
     bind_err (getitem row ''Af Bij'') (\<lambda>af_bij.
     bind_err (ing_code_to_trntype code af_bij) (\<lambda>trntype'.
     bind_err (getitem row ''Datum'') (\<lambda>dtposted'.
     bind_err (getitem row ''Bedrag (EUR)'') (\<lambda>bedrag.
     bind_err (getitem row ''Naam / Omschrijving'') (\<lambda>naam.
     bind_err (getitem row ''Tegenrekening'') (\<lambda>accountto'.
     bind_err (getitem row ''Mededelingen'') (\<lambda>mededelingen.
       let account' = re_sub_spaces 1 '''' rekening;
           trnamt' = get_transaction_amount bedrag af_bij;
           name' = fix_text naam;
           memo' = fix_text mededelingen;
           time = extract_time memo';
           unique_id = make_unique_id accountto' dtposted' time trnamt' idslist
       in Inr \<lparr>account = account', trntype = trntype', dtposted = dtposted',
                trnamt = trnamt', fitid = unique_id, name = name',
                accountto = accountto', memo = memo'\<rparr>)))))))))"

text \<open>
  The \<open>for\<close> loop: the ID is added to the used IDs, and the transaction is appended to the
  list of its month (\<open>defaultdict(list)\<close>: a missing month starts from the empty list).
\<close>

fun read_rows ::
  "bool \<Rightarrow> row list \<Rightarrow> string fset \<Rightarrow> (string \<rightharpoonup> transaction list)
     \<Rightarrow> py_error + (string \<rightharpoonup> transaction list)" where
  "read_rows split_by_month [] idslist transactions = Inr transactions"
| "read_rows split_by_month (row # rows) idslist transactions =
     (case row_transaction row idslist of
        Inl e \<Rightarrow> Inl e
      | Inr t \<Rightarrow>
          let idslist' = finsert (fitid t) idslist;
              month = (if split_by_month then take 6 (dtposted t) else '''');
              group = (case transactions month of None \<Rightarrow> [] | Some ts \<Rightarrow> ts)
          in read_rows split_by_month rows idslist' (transactions(month \<mapsto> group @ [t])))"

text \<open>\<open>read_csv_file\<close>, on the rows that the reader yields for the file.\<close>

definition read_csv_file :: "row list \<Rightarrow> bool \<Rightarrow> py_error + (string \<rightharpoonup> transaction list)" where
  "read_csv_file rows split_by_month = read_rows split_by_month rows {||} Map.empty"


section \<open>Statement renderer\<close>

text \<open>
  The templates, each with its fields filled in as \<open>format\<close> does. The output file is the
  text written so far; \<open>write\<close> appends to it.
\<close>

definition MESSAGE_HEADER_TEMPLATE :: "string \<Rightarrow> string" where
  "MESSAGE_HEADER_TEMPLATE current_date =
     ''\<newline>''
     @ ''<OFX>\<newline>''
     @ ''   <SIGNONMSGSRSV1>\<newline>''
     @ ''      <SONRS>                            <!-- Begin signon -->\<newline>''
     @ ''         <STATUS>                        <!-- Begin status aggregate -->\<newline>''
     @ ''            <CODE>0</CODE>               <!-- OK -->\<newline>''
     @ ''            <SEVERITY>INFO</SEVERITY>\<newline>''
     @ ''         </STATUS>\<newline>''
     @ ''         <DTSERVER>'' @ current_date @ ''</DTSERVER>   <!-- Oct. 29, 1999, 10:10:03 am -->\<newline>''
     @ ''         <LANGUAGE>ENG</LANGUAGE>        <!-- Language used in response -->\<newline>''
     @ ''         <DTPROFUP>'' @ current_date @ ''</DTPROFUP>   <!-- Last update to profile-->\<newline>''
     @ ''         <DTACCTUP>'' @ current_date @ ''</DTACCTUP>   <!-- Last account update -->\<newline>''
     @ ''         <FI>                            <!-- ID of receiving institution -->\<newline>''
     @ ''            <ORG>NCH</ORG>               <!-- Name of ID owner -->\<newline>''
     @ ''            <FID>1001</FID>              <!-- Actual ID -->\<newline>''
     @ ''         </FI>\<newline>''
     @ ''      </SONRS>                           <!-- End of signon -->\<newline>''
     @ ''   </SIGNONMSGSRSV1>\<newline>''
     @ ''   <BANKMSGSRSV1>\<newline>''
     @ ''      <STMTTRNRS>                        <!-- Begin response -->\<newline>''
     @ ''         <TRNUID>1001</TRNUID>           <!-- Client ID sent in request -->\<newline>''
     @ ''         <STATUS>                     <!-- Start status aggregate -->\<newline>''
     @ ''            <CODE>0</CODE>            <!-- OK -->\<newline>''
     @ ''            <SEVERITY>INFO</SEVERITY>\<newline>''
     @ ''         </STATUS>''"

definition MESSAGE_FOOTER_TEMPLATE :: string where
  "MESSAGE_FOOTER_TEMPLATE =
     ''\<newline>''
     @ ''      </STMTTRNRS>                        <!-- End of transaction -->\<newline>''
     @ ''   </BANKMSGSRSV1>\<newline>''
     @ ''</OFX>\<newline>''"

definition MESSAGE_BEGIN_TEMPLATE :: "string \<Rightarrow> string \<Rightarrow> string \<Rightarrow> string" where
  "MESSAGE_BEGIN_TEMPLATE acct start_date end_date =
     ''\<newline>''
     @ ''     <STMTRS>                         <!-- Begin statement response -->\<newline>''
     @ ''        <CURDEF>EUR</CURDEF>\<newline>''
     @ ''        <BANKACCTFROM>                <!-- Identify the account -->\<newline>''
     @ ''           <BANKID>121099999</BANKID> <!-- Routing transit or other FI ID -->\<newline>''
     @ ''           <ACCTID>'' @ acct @ ''</ACCTID> <!-- Account number -->\<newline>''
     @ ''           <ACCTTYPE>CHECKING</ACCTTYPE><!-- Account type -->\<newline>''
     @ ''        </BANKACCTFROM>               <!-- End of account ID -->\<newline>''
     @ ''        <BANKTRANLIST>                <!-- Begin list of statement trans. -->\<newline>''
     @ ''           <DTSTART>'' @ start_date @ ''</DTSTART>\<newline>''
     @ ''           <DTEND>'' @ end_date @ ''</DTEND>''"

definition MESSAGE_TRANSACTION_TEMPLATE :: "transaction \<Rightarrow> string" where
  "MESSAGE_TRANSACTION_TEMPLATE t =
     ''\<newline>''
     @ ''           <STMTTRN>\<newline>''
     @ ''              <TRNTYPE>'' @ trntype t @ ''</TRNTYPE>\<newline>''
     @ ''              <DTPOSTED>'' @ dtposted t @ ''</DTPOSTED>\<newline>''
     @ ''              <TRNAMT>'' @ trnamt t @ ''</TRNAMT>\<newline>''
     @ ''              <FITID>'' @ fitid t @ ''</FITID>\<newline>''
     @ ''              <NAME>'' @ name t @ ''</NAME>\<newline>''
     @ ''              <BANKACCTTO>\<newline>''
     @ ''                 <BANKID></BANKID>\<newline>''
     @ ''                 <ACCTID>'' @ accountto t @ ''</ACCTID>\<newline>''
     @ ''                 <ACCTTYPE>CHECKING</ACCTTYPE>\<newline>''
     @ ''              </BANKACCTTO>\<newline>''
     @ ''              <MEMO>'' @ memo t @ ''</MEMO>\<newline>''
     @ ''           </STMTTRN>''"

definition MESSAGE_END_TEMPLATE :: string where
  "MESSAGE_END_TEMPLATE =
     ''\<newline>''
     @ ''        </BANKTRANLIST>                   <!-- End list of statement trans. -->\<newline>''
     @ ''        <LEDGERBAL>                       <!-- Ledger balance aggregate -->\<newline>''
     @ ''           <BALAMT>0</BALAMT>\<newline>''
     @ ''           <DTASOF>199910291120</DTASOF><!-- Bal date: 10/29/99, 11:20 am -->\<newline>''
     @ ''        </LEDGERBAL>                      <!-- End ledger balance -->\<newline>''
     @ ''     </STMTRS>''"

text \<open>\<open>make_header\<close> takes the date of today, as \<open>strftime('%Y%m%d')\<close> writes it.\<close>

definition make_header :: "string \<Rightarrow> string" where
  "make_header today_str = MESSAGE_HEADER_TEMPLATE today_str"

definition make_message_start :: "string \<Rightarrow> int \<Rightarrow> int \<Rightarrow> string" where
  "make_message_start acct mindate maxdate =
     MESSAGE_BEGIN_TEMPLATE acct (str_int mindate) (str_int maxdate)"

definition make_transaction :: "transaction \<Rightarrow> string" where
  "make_transaction t = MESSAGE_TRANSACTION_TEMPLATE t"

definition make_message_end :: string where
  "make_message_end = MESSAGE_END_TEMPLATE"

definition make_footer :: string where
  "make_footer = MESSAGE_FOOTER_TEMPLATE"

definition find_accounts :: "transaction list \<Rightarrow> string set" where
  "find_accounts transactions = set (map account transactions)"

definition find_date_range ::
  "(string \<Rightarrow> py_error + int) \<Rightarrow> transaction list \<Rightarrow> py_error + int \<times> int" where
  "find_date_range int_other transactions =
     bind_err (py_min (map (\<lambda>t. py_int int_other (dtposted t)) transactions)) (\<lambda>min_date.
     bind_err (py_max (map (\<lambda>t. py_int int_other (dtposted t)) transactions)) (\<lambda>max_date.
       Inr (min_date, max_date)))"

text \<open>
  \<open>write_ofx_file\<close>: the inner loop over the transactions of one account, the loop over
  the accounts, and the function. The loop over the accounts runs over a set, whose
  order is not fixed: the order is the list \<open>accounts\<close>, which enumerates
  \<open>find_accounts transactions\<close>.
\<close>

fun write_transactions :: "transaction list \<Rightarrow> string \<Rightarrow> string" where
  "write_transactions [] ofxfile = ofxfile"
| "write_transactions (trns # rest) ofxfile =
     write_transactions rest (ofxfile @ make_transaction trns)"

fun write_accounts :: "string list \<Rightarrow> int \<Rightarrow> int \<Rightarrow> transaction list \<Rightarrow> string \<Rightarrow> string" where
  "write_accounts [] mindate maxdate transactions ofxfile = ofxfile"
| "write_accounts (acct # accounts) mindate maxdate transactions ofxfile =
     (let started = ofxfile @ make_message_start acct mindate maxdate;
          account_transactions = filter (\<lambda>t. account t = acct) transactions;
          listed = write_transactions account_transactions started
      in write_accounts accounts mindate maxdate transactions (listed @ make_message_end))"

definition write_ofx_file ::
  "(string \<Rightarrow> py_error + int) \<Rightarrow> string \<Rightarrow> string list \<Rightarrow> transaction list \<Rightarrow> string
     \<Rightarrow> py_error + string" where
  "write_ofx_file int_other today_str accounts transactions ofxfile =
     bind_err (find_date_range int_other transactions) (\<lambda>(mindate, maxdate).
       Inr (write_accounts accounts mindate maxdate transactions
              (ofxfile @ make_header today_str) @ make_footer))"


section \<open>Reference formulations of text sanitization\<close>

text \<open>
  The sanitization steps as the specification words them, to compare \<open>fix_text\<close> with:
  entity escaping as one pass that maps each character on its own, and the collapsing of
  runs of spaces as the removal of every space that is directly followed by a space.
\<close>

definition escape_char :: "char \<Rightarrow> string" where
  "escape_char c =
     (if c = CHR ''&'' then ''&amp;''
      else if c = CHR ''>'' then ''&gt;''
      else if c = CHR ''<'' then ''&lt;''
      else [c])"

definition escape_entities :: "string \<Rightarrow> string" where
  "escape_entities s = concat (map escape_char s)"

fun collapse_spaces :: "string \<Rightarrow> string" where
  "collapse_spaces (c # d # r) =
     (if c = CHR '' '' \<and> d = CHR '' '' then collapse_spaces (d # r)
      else c # collapse_spaces (d # r))"
| "collapse_spaces s = s"

text \<open>Auxiliary predicates of the proofs: no two adjacent spaces; a character that is escaped.\<close>

fun no_double_space :: "string \<Rightarrow> bool" where
  "no_double_space (c # d # r) = (\<not> (c = CHR '' '' \<and> d = CHR '' '') \<and> no_double_space (d # r))"
| "no_double_space s = True"

definition special :: "char \<Rightarrow> bool" where
  "special c = (c = CHR ''&'' \<or> c = CHR ''>'' \<or> c = CHR ''<'')"


section \<open>Reference formulations of the date-time pattern\<close>

text \<open>
  A string has the form \<open>p\<close> when it matches the atoms of \<open>p\<close> one by one.
  \<open>form_yy\<close> is \<open>DD-MM-YY HH:MM\<close>, \<open>form_yyyy\<close> is \<open>DD-MM-YYYY HH:MM\<close> with any four
  digits as the year, \<open>form_20yy\<close> is \<open>DD-MM-20YY HH:MM\<close>.
\<close>

definition has_form :: "re_atom list \<Rightarrow> string \<Rightarrow> bool" where
  "has_form p d = list_all2 atom_ok p d"

definition form_yy :: "re_atom list" where
  "form_yy = [Digit, Digit, Lit CHR ''-'', Digit, Digit, Lit CHR ''-'', Digit, Digit,
              Lit CHR '' '', Digit, Digit, Lit CHR '':'', Digit, Digit]"

definition form_yyyy :: "re_atom list" where
  "form_yyyy = [Digit, Digit, Lit CHR ''-'', Digit, Digit, Lit CHR ''-'', Digit, Digit, Digit, Digit,
                Lit CHR '' '', Digit, Digit, Lit CHR '':'', Digit, Digit]"

definition form_20yy :: "re_atom list" where
  "form_20yy = [Digit, Digit, Lit CHR ''-'', Digit, Digit, Lit CHR ''-'',
                Lit CHR ''2'', Lit CHR ''0'', Digit, Digit,
                Lit CHR '' '', Digit, Digit, Lit CHR '':'', Digit, Digit]"

text \<open>The date-time pattern as the specification words it, and as the pattern of the code has it.\<close>

definition spec_datetime :: "string \<Rightarrow> bool" where
  "spec_datetime d = (has_form form_yy d \<or> has_form form_yyyy d)"

definition code_datetime :: "string \<Rightarrow> bool" where
  "code_datetime d = (has_form form_yy d \<or> has_form form_20yy d)"

text \<open>The hour and minute digits of a string of one of these forms: its last five characters without the colon.\<close>

definition hhmm :: "string \<Rightarrow> string" where
  "hhmm d = take 2 (drop (length d - 5) d) @ drop (length d - 2) d"

text \<open>Auxiliary notions of the proofs: a form at the start of a string; the pattern after the year.\<close>

definition fits_prefix :: "re_atom list \<Rightarrow> string \<Rightarrow> bool" where
  "fits_prefix p s = (length p \<le> length s \<and> has_form p (take (length p) s))"

definition tail_form :: "re_atom list" where
  "tail_form = [Digit, Digit, Lit CHR '' '', Digit, Digit, Lit CHR '':'', Digit, Digit]"


section \<open>Reference formulations of the fingerprint and of the statement blocks\<close>

text \<open>
  The base fingerprint of a transaction; its \<open>k\<close>-th candidate ID (the fingerprint itself
  for \<open>k = 0\<close>, with the suffix \<open>k\<close> otherwise); the posted date as a number.
\<close>

definition fingerprint :: "string \<Rightarrow> string \<Rightarrow> string \<Rightarrow> string \<Rightarrow> string" where
  "fingerprint a d t amt = a @ d @ t @ filter (\<lambda>c. c \<noteq> CHR ''-'' \<and> c \<noteq> CHR ''.'') amt"

definition candidate :: "string \<Rightarrow> int \<Rightarrow> string" where
  "candidate f k = (if k = 0 then f else f @ str_int k)"

definition posted_int :: "transaction \<Rightarrow> int" where
  "posted_int t = int (dec_val (dtposted t))"

text \<open>
  The text of the output file, written out: a tag with its content, the header, the
  opening of the statement block of an account with its period, the entry of a
  transaction, the closing of a block, and the footer.
\<close>

definition ofx_tag :: "string \<Rightarrow> string \<Rightarrow> string" where
  "ofx_tag tag content = ''<'' @ tag @ ''>'' @ content @ ''</'' @ tag @ ''>''"

definition ofx_header :: "string \<Rightarrow> string" where
  "ofx_header today =
     ''\<newline>''
     @ ''<OFX>\<newline>''
     @ ''   <SIGNONMSGSRSV1>\<newline>''
     @ ''      <SONRS>                            <!-- Begin signon -->\<newline>''
     @ ''         <STATUS>                        <!-- Begin status aggregate -->\<newline>''
     @ ''            <CODE>0</CODE>               <!-- OK -->\<newline>''
     @ ''            <SEVERITY>INFO</SEVERITY>\<newline>''
     @ ''         </STATUS>\<newline>''
     @ ''         '' @ ofx_tag ''DTSERVER'' today @ ''   <!-- Oct. 29, 1999, 10:10:03 am -->\<newline>''
     @ ''         <LANGUAGE>ENG</LANGUAGE>        <!-- Language used in response -->\<newline>''
     @ ''         '' @ ofx_tag ''DTPROFUP'' today @ ''   <!-- Last update to profile-->\<newline>''
     @ ''         '' @ ofx_tag ''DTACCTUP'' today @ ''   <!-- Last account update -->\<newline>''
     @ ''         <FI>                            <!-- ID of receiving institution -->\<newline>''
     @ ''            <ORG>NCH</ORG>               <!-- Name of ID owner -->\<newline>''
     @ ''            <FID>1001</FID>              <!-- Actual ID -->\<newline>''
     @ ''         </FI>\<newline>''
     @ ''      </SONRS>                           <!-- End of signon -->\<newline>''
     @ ''   </SIGNONMSGSRSV1>\<newline>''
     @ ''   <BANKMSGSRSV1>\<newline>''
     @ ''      <STMTTRNRS>                        <!-- Begin response -->\<newline>''
     @ ''         <TRNUID>1001</TRNUID>           <!-- Client ID sent in request -->\<newline>''
     @ ''         <STATUS>                     <!-- Start status aggregate -->\<newline>''
     @ ''            <CODE>0</CODE>            <!-- OK -->\<newline>''
     @ ''            <SEVERITY>INFO</SEVERITY>\<newline>''
     @ ''         </STATUS>''"

definition ofx_block_open :: "string \<Rightarrow> string \<Rightarrow> string \<Rightarrow> string" where
  "ofx_block_open acct period_start period_end =
     ''\<newline>''
     @ ''     <STMTRS>                         <!-- Begin statement response -->\<newline>''
     @ ''        <CURDEF>EUR</CURDEF>\<newline>''
     @ ''        <BANKACCTFROM>                <!-- Identify the account -->\<newline>''
     @ ''           <BANKID>121099999</BANKID> <!-- Routing transit or other FI ID -->\<newline>''
     @ ''           '' @ ofx_tag ''ACCTID'' acct @ '' <!-- Account number -->\<newline>''
     @ ''           <ACCTTYPE>CHECKING</ACCTTYPE><!-- Account type -->\<newline>''
     @ ''        </BANKACCTFROM>               <!-- End of account ID -->\<newline>''
     @ ''        <BANKTRANLIST>                <!-- Begin list of statement trans. -->\<newline>''
     @ ''           '' @ ofx_tag ''DTSTART'' period_start @ ''\<newline>''
     @ ''           '' @ ofx_tag ''DTEND'' period_end"

definition ofx_transaction :: "transaction \<Rightarrow> string" where
  "ofx_transaction t =
     ''\<newline>''
     @ ''           <STMTTRN>\<newline>''
     @ ''              '' @ ofx_tag ''TRNTYPE'' (trntype t) @ ''\<newline>''
     @ ''              '' @ ofx_tag ''DTPOSTED'' (dtposted t) @ ''\<newline>''
     @ ''              '' @ ofx_tag ''TRNAMT'' (trnamt t) @ ''\<newline>''
     @ ''              '' @ ofx_tag ''FITID'' (fitid t) @ ''\<newline>''
     @ ''              '' @ ofx_tag ''NAME'' (name t) @ ''\<newline>''
     @ ''              <BANKACCTTO>\<newline>''
     @ ''                 <BANKID></BANKID>\<newline>''
     @ ''                 '' @ ofx_tag ''ACCTID'' (accountto t) @ ''\<newline>''
     @ ''                 <ACCTTYPE>CHECKING</ACCTTYPE>\<newline>''
     @ ''              </BANKACCTTO>\<newline>''
     @ ''              '' @ ofx_tag ''MEMO'' (memo t) @ ''\<newline>''
     @ ''           </STMTTRN>''"

definition ofx_block_close :: string where
  "ofx_block_close =
     ''\<newline>''
     @ ''        </BANKTRANLIST>                   <!-- End list of statement trans. -->\<newline>''
     @ ''        <LEDGERBAL>                       <!-- Ledger balance aggregate -->\<newline>''
     @ ''           <BALAMT>0</BALAMT>\<newline>''
     @ ''           <DTASOF>199910291120</DTASOF><!-- Bal date: 10/29/99, 11:20 am -->\<newline>''
     @ ''        </LEDGERBAL>                      <!-- End ledger balance -->\<newline>''
     @ ''     </STMTRS>''"

definition ofx_footer :: string where
  "ofx_footer =
     ''\<newline>''
     @ ''      </STMTTRNRS>                        <!-- End of transaction -->\<newline>''
     @ ''   </BANKMSGSRSV1>\<newline>''
     @ ''</OFX>\<newline>''"

text \<open>
  The statement block of one account for a period: its opening, the entries of the
  transactions of that account in the order of the group, and its closing.
\<close>

definition statement_block :: "string \<Rightarrow> string \<Rightarrow> transaction list \<Rightarrow> string \<Rightarrow> string" where
  "statement_block period_start period_end transactions acct =
     ofx_block_open acct period_start period_end
     @ concat (map ofx_transaction (filter (\<lambda>t. account t = acct) transactions))
     @ ofx_block_close"


section \<open>Example inputs\<close>

definition example_row :: row where
  "example_row = [''Rekening'' \<mapsto> ''NL01 INGB 0001'', ''Code'' \<mapsto> ''GT'', ''Af Bij'' \<mapsto> ''Af'',
     ''Datum'' \<mapsto> ''20170305'', ''Bedrag (EUR)'' \<mapsto> ''12,34'',
     ''Naam / Omschrijving'' \<mapsto> ''A  &  B'', ''Tegenrekening'' \<mapsto> ''NL02'',
     ''Mededelingen'' \<mapsto> ''Pas 05-03-17  14:22 <x>'']"

definition example_transaction :: "string \<Rightarrow> transaction" where
  "example_transaction unique_id =
     \<lparr>account = ''NL01INGB0001'', trntype = ''PAYMENT'', dtposted = ''20170305'',
      trnamt = ''-12.34'', fitid = unique_id, name = ''A &amp; B'', accountto = ''NL02'',
      memo = ''Pas 05-03-17 14:22 &lt;x&gt;''\<rparr>"

text \<open>An \<open>int\<close> that raises \<open>ValueError\<close> for every string that is not a string of digits.\<close>

definition int_rejects :: "string \<Rightarrow> py_error + int" where
  "int_rejects s = Inl ValueError"

definition example_posting :: "string \<Rightarrow> string \<Rightarrow> string \<Rightarrow> transaction" where
  "example_posting acct date unique_id =
     \<lparr>account = acct, trntype = ''OTHER'', dtposted = date, trnamt = ''1.00'',
      fitid = unique_id, name = '''', accountto = '''', memo = ''''\<rparr>"


section \<open>Properties of the classifier\<close>

text \<open>
  C7: for a debit/credit flag that is \<open>Af\<close> or \<open>Bij\<close>, the codes DV, OV and VZ give DEBIT
  for \<open>Af\<close> and CREDIT for \<open>Bij\<close>; otherwise GT gives PAYMENT, BA gives POS, GM gives ATM,
  IC gives DIRECTDEBIT, ST gives DIRECTDEP, and every other code gives OTHER.
\<close>

theorem ing_code_to_trntype_valid_flag:
  assumes "af_bij = ''Af'' \<or> af_bij = ''Bij''"
  shows "ing_code_to_trntype ing_code af_bij =
     Inr (if ing_code = ''DV'' \<or> ing_code = ''OV'' \<or> ing_code = ''VZ''
          then (if af_bij = ''Af'' then ''DEBIT'' else ''CREDIT'')
          else if ing_code = ''GT'' then ''PAYMENT''
          else if ing_code = ''BA'' then ''POS''
          else if ing_code = ''GM'' then ''ATM''
          else if ing_code = ''IC'' then ''DIRECTDEBIT''
          else if ing_code = ''ST'' then ''DIRECTDEP''
          else ''OTHER'')"
  using assms
  by (auto simp: ing_code_to_trntype_def af_bij_codes_def af_bij_map_def trn_codes_def
      getitem_def)

theorem ing_code_to_trntype_valid_flag_witness:
  "(''Bij'' = ''Af'' \<or> ''Bij'' = ''Bij'')
   \<and> ing_code_to_trntype ''DV'' ''Bij'' = Inr ''CREDIT''
   \<and> (''Af'' = ''Af'' \<or> ''Af'' = ''Bij'')
   \<and> ing_code_to_trntype ''ZZ'' ''Af'' = Inr ''OTHER''"
  using ing_code_to_trntype_valid_flag [of "''Bij''" "''DV''"]
    ing_code_to_trntype_valid_flag [of "''Af''" "''ZZ''"]
  by simp





section \<open>Properties of the field normalizer\<close>

subsection \<open>Amount normalization\<close>

lemma str_replace_Nil: "str_replace old new [] = []"
  by (simp add: str_replace_def)

lemma str_replace_Cons:
  "str_replace old new (c # cs) = (if c = old then new else [c]) @ str_replace old new cs"
  by (simp add: str_replace_def)

lemma str_replace_char:
  "str_replace old [new] s = map (\<lambda>c. if c = old then new else c) s"
  by (induction s) (simp_all add: str_replace_Nil str_replace_Cons)

text \<open>
  C4 (as the code has it): the result is the raw amount with every comma replaced by a
  point, with \<open>-\<close> put in front exactly when the flag is \<open>Af\<close>; so the result starts
  with \<open>-\<close> if and only if the flag is \<open>Af\<close> or the raw amount itself starts with
  \<open>-\<close>; the digits of the amount are kept, in order.
\<close>

theorem get_transaction_amount_shape:
  "get_transaction_amount amount af_bij =
     (if af_bij = ''Af'' then ''-'' else '''')
       @ map (\<lambda>c. if c = CHR '','' then CHR ''.'' else c) amount
   \<and> (take 1 (get_transaction_amount amount af_bij) = ''-''
        \<longleftrightarrow> af_bij = ''Af'' \<or> take 1 amount = ''-'')
   \<and> filter is_digit (get_transaction_amount amount af_bij) = filter is_digit amount"
proof -
  have shape: "get_transaction_amount amount af_bij =
     (if af_bij = ''Af'' then ''-'' else '''')
       @ map (\<lambda>c. if c = CHR '','' then CHR ''.'' else c) amount"
    by (simp add: get_transaction_amount_def str_replace_char)
  have sign: "take 1 (get_transaction_amount amount af_bij) = ''-''
        \<longleftrightarrow> af_bij = ''Af'' \<or> take 1 amount = ''-''"
    unfolding shape by (cases amount) auto
  have nd: "\<not> is_digit CHR '','' " "\<not> is_digit CHR ''.''" "\<not> is_digit CHR ''-''"
    by (simp_all add: is_digit_def)
  have "filter is_digit (map (\<lambda>c. if c = CHR '','' then CHR ''.'' else c) amount)
        = filter is_digit amount"
    by (induction amount) (use nd in auto)
  then have digits: "filter is_digit (get_transaction_amount amount af_bij) = filter is_digit amount"
    unfolding shape using nd by simp
  from shape sign digits show ?thesis by blast
qed

theorem get_transaction_amount_shape_witness:
  "get_transaction_amount ''1.234,56'' ''Af'' = ''-1.234.56''
   \<and> take 1 (get_transaction_amount ''1.234,56'' ''Af'') = ''-''
   \<and> filter is_digit (get_transaction_amount ''1.234,56'' ''Af'') = ''123456''"
  using get_transaction_amount_shape [of "''1.234,56''" "''Af''"]
  by (simp add: is_digit_def)

text \<open>
  C4 as stated fails: a raw amount that starts with \<open>-\<close> gives a result that starts
  with \<open>-\<close> although the flag is the credit value.
\<close>

theorem get_transaction_amount_sign_counterexample:
  "take 1 (get_transaction_amount ''-1,00'' ''Bij'') = ''-'' \<and> ''Bij'' \<noteq> ''Af''"
  by (simp add: get_transaction_amount_def str_replace_def)


subsection \<open>Text sanitization: the order of the steps\<close>

lemma str_replace_append:
  "str_replace old new (xs @ ys) = str_replace old new xs @ str_replace old new ys"
  by (simp add: str_replace_def)

lemma escape_sequential:
  "str_replace CHR ''<'' ''&lt;'' (str_replace CHR ''>'' ''&gt;'' (str_replace CHR ''&'' ''&amp;'' t))
   = escape_entities t"
proof (induction t)
  case Nil
  show ?case by (simp add: str_replace_def escape_entities_def)
next
  case (Cons c t)
  have "str_replace CHR ''<'' ''&lt;'' (str_replace CHR ''>'' ''&gt;''
          (str_replace CHR ''&'' ''&amp;'' [c])) = escape_char c"
    by (simp add: str_replace_def escape_char_def)
  moreover have "str_replace CHR ''&'' ''&amp;'' (c # t)
      = str_replace CHR ''&'' ''&amp;'' [c] @ str_replace CHR ''&'' ''&amp;'' t"
    by (simp add: str_replace_def)
  ultimately show ?case
    using Cons.IH by (simp add: str_replace_append escape_entities_def)
qed

lemma collapse_run:
  "collapse_spaces (CHR '' '' # r)
   = CHR '' '' # collapse_spaces (dropWhile (\<lambda>x. x = CHR '' '') r)"
proof (induction r)
  case Nil
  show ?case by simp
next
  case (Cons d r)
  then show ?case by (cases r) auto
qed

lemma collapse_Cons_other:
  "c \<noteq> CHR '' '' \<Longrightarrow> collapse_spaces (c # cs) = c # collapse_spaces cs"
  by (cases cs) auto

lemma takeWhile_space_pos:
  "2 \<le> Suc (length (takeWhile (\<lambda>x. x = CHR '' '') cs)) \<longleftrightarrow> (\<exists>r. cs = CHR '' '' # r)"
  by (cases cs) auto

lemma re_sub_collapse: "re_sub_spaces 2 '' '' s = collapse_spaces s"
proof (induction s rule: length_induct)
  case (1 s)
  show ?case
  proof (cases s)
    case Nil
    then show ?thesis by simp
  next
    case (Cons c cs)
    show ?thesis
    proof (cases "c = CHR '' ''")
      case False
      have "length cs < length s" using Cons by simp
      with 1 have "re_sub_spaces 2 '' '' cs = collapse_spaces cs" by blast
      with False Cons show ?thesis by (simp add: collapse_Cons_other)
    next
      case True
      show ?thesis
      proof (cases "\<exists>r. cs = CHR '' '' # r")
        case True
        then obtain r where r: "cs = CHR '' '' # r" by blast
        have "length (dropWhile (\<lambda>x. x = CHR '' '') cs) < length s"
          using Cons by (simp add: length_dropWhile_le less_Suc_eq_le)
        with 1 have ih: "re_sub_spaces 2 '' '' (dropWhile (\<lambda>x. x = CHR '' '') cs)
            = collapse_spaces (dropWhile (\<lambda>x. x = CHR '' '') cs)" by blast
        have "re_sub_spaces 2 '' '' s
            = CHR '' '' # collapse_spaces (dropWhile (\<lambda>x. x = CHR '' '') cs)"
          using Cons \<open>c = CHR '' ''\<close> r ih by simp
        also have "\<dots> = collapse_spaces cs"
          using collapse_run [of r] r by simp
        also have "\<dots> = collapse_spaces s"
          using Cons \<open>c = CHR '' ''\<close> r by simp
        finally show ?thesis .
      next
        case False
        have "length cs < length s" using Cons by simp
        with 1 have ih: "re_sub_spaces 2 '' '' cs = collapse_spaces cs" by blast
        have "re_sub_spaces 2 '' '' s = c # collapse_spaces cs"
          using Cons False ih takeWhile_space_pos [of cs] by simp
        moreover have "collapse_spaces s = c # collapse_spaces cs"
          using Cons False by (cases cs) auto
        ultimately show ?thesis by simp
      qed
    qed
  qed
qed

lemma fix_text_spec: "fix_text s = escape_entities (strip (collapse_spaces s))"
  by (simp add: fix_text_def escape_sequential re_sub_collapse)


text \<open>
  C6 (as the code has it): sanitization collapses every run of two or more spaces into
  one space, then strips leading and trailing whitespace, and only then escapes
  \<open>&\<close>, \<open>>\<close> and \<open><\<close>, \<open>&\<close> first, so that no entity is escaped again; the text
  \<open><  name>\<close> becomes \<open>&lt; name&gt;\<close>, with the collapsed space kept, and neither
  \<open>&amp;lt; name&amp;gt;\<close> nor \<open>&amp;lt;name&amp;gt;\<close>.
\<close>

theorem fix_text_collapse_strip_escape:
  "fix_text s = escape_entities (strip (collapse_spaces s))
   \<and> fix_text ''<  name>'' = ''&lt; name&gt;''
   \<and> fix_text ''<  name>'' \<noteq> ''&amp;lt; name&amp;gt;''
   \<and> fix_text ''<  name>'' \<noteq> ''&amp;lt;name&amp;gt;''"
  by (simp add: fix_text_spec escape_entities_def escape_char_def strip_def is_space_def)

theorem fix_text_collapse_strip_escape_witness:
  "fix_text ''  a   &  b <c>  '' = ''a &amp; b &lt;c&gt;''"
  using fix_text_collapse_strip_escape [of "''  a   &  b <c>  ''"]
  by (simp add: escape_entities_def escape_char_def strip_def is_space_def)

text \<open>
  C6 as stated fails at its own example: the two spaces of \<open><  name>\<close> become one
  space, they are not removed.
\<close>

theorem fix_text_example_counterexample:
  "fix_text ''<  name>'' = ''&lt; name&gt;'' \<and> fix_text ''<  name>'' \<noteq> ''&lt;name&gt;''"
  by (simp add: fix_text_spec escape_entities_def escape_char_def strip_def is_space_def)

subsection \<open>Text sanitization: idempotence\<close>

lemma collapse_hd: "s \<noteq> [] \<Longrightarrow> collapse_spaces s \<noteq> [] \<and> hd (collapse_spaces s) = hd s"
  by (induction s rule: collapse_spaces.induct) auto

lemma nds_Cons:
  "no_double_space (c # x)
   \<longleftrightarrow> (c = CHR '' '' \<longrightarrow> x = [] \<or> hd x \<noteq> CHR '' '') \<and> no_double_space x"
  by (cases x) auto

lemma nds_collapse: "no_double_space (collapse_spaces s)"
proof (induction s rule: collapse_spaces.induct)
  case (1 c d r)
  then show ?case using collapse_hd [of "d # r"] by (auto simp: nds_Cons)
qed simp_all

lemma nds_fixed: "no_double_space s \<Longrightarrow> collapse_spaces s = s"
  by (induction s rule: collapse_spaces.induct) auto

lemma nds_append:
  "no_double_space (xs @ ys)
   \<longleftrightarrow> no_double_space xs \<and> no_double_space ys
       \<and> (xs = [] \<or> ys = [] \<or> \<not> (last xs = CHR '' '' \<and> hd ys = CHR '' ''))"
proof (induction xs)
  case Nil
  show ?case by simp
next
  case (Cons c xs)
  show ?case
  proof (cases xs)
    case Nil
    then show ?thesis by (auto simp: nds_Cons)
  next
    case (Cons d r)
    with Cons.IH show ?thesis by auto
  qed
qed

lemma nds_rev: "no_double_space (rev s) = no_double_space s"
proof (induction s)
  case Nil
  show ?case by simp
next
  case (Cons c s)
  then show ?case
    by (cases s) (auto simp: nds_append nds_Cons last_rev hd_rev)
qed

lemma nds_dropWhile: "no_double_space s \<Longrightarrow> no_double_space (dropWhile P s)"
proof -
  assume "no_double_space s"
  then have "no_double_space (takeWhile P s @ dropWhile P s)" by simp
  then show ?thesis unfolding nds_append by blast
qed

lemma nds_strip: "no_double_space s \<Longrightarrow> no_double_space (strip s)"
  by (simp add: strip_def nds_rev nds_dropWhile)

lemma strip_idem: "strip (strip s) = strip s"
proof -
  define a where "a = dropWhile is_space s"
  define b where "b = rev (dropWhile is_space (rev a))"
  have b: "strip s = b" by (simp add: strip_def a_def b_def)
  have "b @ rev (takeWhile is_space (rev a))
      = rev (takeWhile is_space (rev a) @ dropWhile is_space (rev a))"
    unfolding b_def by (simp only: rev_append)
  then have split: "a = b @ rev (takeWhile is_space (rev a))"
    by simp
  have a_fix: "a = [] \<or> \<not> is_space (hd a)"
    unfolding a_def by (metis dropWhile_eq_Nil_conv hd_dropWhile)
  have "b = [] \<or> \<not> is_space (hd b)"
  proof (cases "b = []")
    case False
    then have "hd a = hd b" using split by (metis hd_append2)
    moreover have "a \<noteq> []" using False split by auto
    ultimately show ?thesis using a_fix by simp
  qed simp
  then have "dropWhile is_space b = b"
    by (simp add: dropWhile_eq_self_iff)
  moreover have "dropWhile is_space (rev b) = rev b"
    by (simp add: b_def)
  ultimately have "strip b = b" by (simp add: strip_def)
  with b show ?thesis by simp
qed

lemma set_collapse: "set (collapse_spaces s) \<subseteq> set s"
  by (induction s rule: collapse_spaces.induct) auto

lemma set_strip: "set (strip s) \<subseteq> set s"
proof
  fix c
  assume "c \<in> set (strip s)"
  then have "c \<in> set (dropWhile is_space (rev (dropWhile is_space s)))"
    by (simp add: strip_def)
  then have "c \<in> set (rev (dropWhile is_space s))" by (rule set_dropWhileD)
  then have "c \<in> set (dropWhile is_space s)" by simp
  then show "c \<in> set s" by (rule set_dropWhileD)
qed

lemma escape_plain: "\<forall>c\<in>set x. \<not> special c \<Longrightarrow> escape_entities x = x"
  by (induction x) (auto simp: escape_entities_def escape_char_def special_def)

lemma fix_text_idem_plain:
  assumes "\<forall>c\<in>set s. \<not> special c"
  shows "fix_text (fix_text s) = fix_text s"
proof -
  let ?n = "strip (collapse_spaces s)"
  have "set ?n \<subseteq> set s" using set_collapse set_strip by blast
  with assms have plain: "\<forall>c\<in>set ?n. \<not> special c" by blast
  then have ft: "fix_text s = ?n" by (simp add: fix_text_spec escape_plain)
  have "no_double_space ?n" by (simp add: nds_strip nds_collapse)
  then have "collapse_spaces ?n = ?n" by (rule nds_fixed)
  then have "fix_text ?n = escape_entities ?n" by (simp add: fix_text_spec strip_idem)
  with plain ft show ?thesis by (simp add: escape_plain)
qed

lemma filter_collapse:
  "\<not> Q CHR '' '' \<Longrightarrow> filter Q (collapse_spaces s) = filter Q s"
  by (induction s rule: collapse_spaces.induct) auto

lemma filter_dropWhile:
  "(\<And>c. Q c \<Longrightarrow> \<not> P c) \<Longrightarrow> filter Q (dropWhile P s) = filter Q s"
  by (induction s) auto

lemma filter_strip:
  assumes "\<And>c. Q c \<Longrightarrow> \<not> is_space c"
  shows "filter Q (strip s) = filter Q s"
proof -
  have "filter Q (strip s) = rev (filter Q (dropWhile is_space (rev (dropWhile is_space s))))"
    by (simp add: strip_def rev_filter)
  also have "\<dots> = rev (filter Q (rev (dropWhile is_space s)))"
    using assms by (simp add: filter_dropWhile)
  also have "\<dots> = filter Q (dropWhile is_space s)"
    by (simp add: rev_filter [symmetric])
  also have "\<dots> = filter Q s"
    using assms by (simp add: filter_dropWhile)
  finally show ?thesis .
qed

lemma filter_normalise:
  assumes "\<And>c. Q c \<Longrightarrow> \<not> is_space c"
  shows "filter Q (strip (collapse_spaces s)) = filter Q s"
proof -
  have "\<not> Q CHR '' ''" using assms [of "CHR '' ''"] by (auto simp: is_space_def)
  then show ?thesis using assms by (simp add: filter_strip filter_collapse)
qed

lemma special_not_space: "special c \<Longrightarrow> \<not> is_space c"
  by (auto simp: special_def is_space_def)

lemma semicolon_not_space: "c = CHR '';'' \<Longrightarrow> \<not> is_space c"
  by (auto simp: is_space_def)

lemma count_semicolon_escape:
  "length (filter (\<lambda>c. c = CHR '';'') (escape_entities x))
   = length (filter (\<lambda>c. c = CHR '';'') x) + length (filter special x)"
  by (induction x) (auto simp: escape_entities_def escape_char_def special_def)

lemma special_escape:
  "length (filter special x) \<le> length (filter special (escape_entities x))"
  by (induction x) (auto simp: escape_entities_def escape_char_def special_def)

lemma count_semicolon_fix_text:
  "length (filter (\<lambda>c. c = CHR '';'') (fix_text t))
   = length (filter (\<lambda>c. c = CHR '';'') t) + length (filter special t)"
  by (simp add: fix_text_spec count_semicolon_escape filter_normalise
      special_not_space semicolon_not_space)

lemma special_fix_text: "length (filter special s) \<le> length (filter special (fix_text s))"
proof -
  have "length (filter special s) = length (filter special (strip (collapse_spaces s)))"
    by (simp add: filter_normalise special_not_space)
  also have "\<dots> \<le> length (filter special (fix_text s))"
    unfolding fix_text_spec by (rule special_escape)
  finally show ?thesis .
qed

lemma fix_text_not_idem:
  assumes "c \<in> set s" "special c"
  shows "fix_text (fix_text s) \<noteq> fix_text s"
proof
  assume eq: "fix_text (fix_text s) = fix_text s"
  from assms have "filter special s \<noteq> []" by (auto simp: filter_empty_conv)
  then have "0 < length (filter special s)" by simp
  with special_fix_text [of s] have "0 < length (filter special (fix_text s))" by linarith
  with count_semicolon_fix_text [of "fix_text s"] eq show False by simp
qed

text \<open>
  C3 (as the code has it): sanitizing twice gives the same as sanitizing once exactly for
  the input strings that contain none of \<open>&\<close>, \<open>>\<close> and \<open><\<close>.
\<close>

theorem fix_text_idempotent_iff:
  "fix_text (fix_text s) = fix_text s
   \<longleftrightarrow> set s \<inter> {CHR ''&'', CHR ''>'', CHR ''<''} = {}"
proof
  assume "fix_text (fix_text s) = fix_text s"
  then show "set s \<inter> {CHR ''&'', CHR ''>'', CHR ''<''} = {}"
    using fix_text_not_idem [of _ s] by (auto simp: special_def)
next
  assume "set s \<inter> {CHR ''&'', CHR ''>'', CHR ''<''} = {}"
  then have "\<forall>c\<in>set s. \<not> special c" by (auto simp: special_def)
  then show "fix_text (fix_text s) = fix_text s" by (rule fix_text_idem_plain)
qed

theorem fix_text_idempotent_iff_witness:
  "fix_text (fix_text '' a   b  '') = fix_text '' a   b  ''
   \<and> set '' a   b  '' \<inter> {CHR ''&'', CHR ''>'', CHR ''<''} = {}"
  using fix_text_idempotent_iff [of "'' a   b  ''"]
  by simp

text \<open>
  C3 as stated fails: the entity written for \<open>&\<close> contains \<open>&\<close> and is escaped again
  by a second application.
\<close>

theorem fix_text_twice_counterexample:
  "fix_text ''&'' = ''&amp;'' \<and> fix_text (fix_text ''&'') = ''&amp;amp;''"
  by (simp add: fix_text_spec escape_entities_def escape_char_def strip_def is_space_def)


subsection \<open>Time extraction\<close>

lemma match_atoms_closed':
  "match_atoms p s = (if fits_prefix p s then Some (drop (length p) s) else None)"
  by (induction p s rule: match_atoms.induct) (auto simp: fits_prefix_def has_form_def)

lemma match_atoms_closed:
  "length p = n \<Longrightarrow> match_atoms p s = (if fits_prefix p s then Some (drop n s) else None)"
  using match_atoms_closed' [of p s] by simp

lemma fits_prefix_append':
  "fits_prefix (p @ q) s \<longleftrightarrow> fits_prefix p s \<and> fits_prefix q (drop (length p) s)"
proof (induction p arbitrary: s)
  case Nil
  show ?case by (simp add: fits_prefix_def has_form_def)
next
  case (Cons a p)
  show ?case
  proof (cases s)
    case Nil
    then show ?thesis by (simp add: fits_prefix_def has_form_def)
  next
    case (Cons c cs)
    have step: "\<And>r. fits_prefix (a # r) (c # cs) \<longleftrightarrow> atom_ok a c \<and> fits_prefix r cs"
      by (auto simp: fits_prefix_def has_form_def)
    show ?thesis
      using Cons.IH [of cs] step [of "p @ q"] step [of p] Cons by simp
  qed
qed

lemma fits_prefix_append:
  "length p = n \<Longrightarrow> fits_prefix (p @ q) s \<longleftrightarrow> fits_prefix p s \<and> fits_prefix q (drop n s)"
  using fits_prefix_append' [of p q s] by simp

lemma fits_tail_split:
  "fits_prefix tail_form s \<longleftrightarrow>
        fits_prefix [Digit, Digit, Lit CHR '' ''] s
        \<and> fits_prefix [Digit, Digit] (drop 3 s)
        \<and> fits_prefix [Lit CHR '':''] (drop 5 s)
        \<and> fits_prefix [Digit, Digit] (drop 6 s)"
proof -
  have "fits_prefix tail_form s \<longleftrightarrow> fits_prefix [Digit, Digit, Lit CHR '' ''] s
      \<and> fits_prefix [Digit, Digit, Lit CHR '':'', Digit, Digit] (drop 3 s)"
    using fits_prefix_append [of "[Digit, Digit, Lit CHR '' '']" 3
        "[Digit, Digit, Lit CHR '':'', Digit, Digit]" s]
    by (simp add: tail_form_def)
  moreover have "fits_prefix [Digit, Digit, Lit CHR '':'', Digit, Digit] (drop 3 s)
      \<longleftrightarrow> fits_prefix [Digit, Digit] (drop 3 s)
        \<and> fits_prefix [Lit CHR '':'', Digit, Digit] (drop 5 s)"
    using fits_prefix_append [of "[Digit, Digit]" 2 "[Lit CHR '':'', Digit, Digit]" "drop 3 s"]
    by simp
  moreover have "fits_prefix [Lit CHR '':'', Digit, Digit] (drop 5 s)
      \<longleftrightarrow> fits_prefix [Lit CHR '':''] (drop 5 s) \<and> fits_prefix [Digit, Digit] (drop 6 s)"
    using fits_prefix_append [of "[Lit CHR '':'']" 1 "[Digit, Digit]" "drop 5 s"]
    by simp
  ultimately show ?thesis by blast
qed

lemma match_time_closed:
  "match_time s =
     (if fits_prefix tail_form s then Some (take 2 (drop 3 s) @ take 2 (drop 6 s)) else None)"
  by (simp add: match_time_def fits_tail_split
      match_atoms_closed [where n = 3] match_atoms_closed [where n = 2]
      match_atoms_closed [where n = 1])

lemma fits_20yy_split:
  "fits_prefix form_20yy s \<longleftrightarrow>
     fits_prefix [Digit, Digit, Lit CHR ''-'', Digit, Digit, Lit CHR ''-''] s
     \<and> fits_prefix [Lit CHR ''2'', Lit CHR ''0''] (drop 6 s)
     \<and> fits_prefix tail_form (drop 8 s)"
proof -
  have "fits_prefix form_20yy s
      \<longleftrightarrow> fits_prefix [Digit, Digit, Lit CHR ''-'', Digit, Digit, Lit CHR ''-''] s
        \<and> fits_prefix ([Lit CHR ''2'', Lit CHR ''0''] @ tail_form) (drop 6 s)"
    using fits_prefix_append [of "[Digit, Digit, Lit CHR ''-'', Digit, Digit, Lit CHR ''-'']" 6
        "[Lit CHR ''2'', Lit CHR ''0''] @ tail_form" s]
    by (simp add: tail_form_def form_20yy_def)
  moreover have "fits_prefix ([Lit CHR ''2'', Lit CHR ''0''] @ tail_form) (drop 6 s)
      \<longleftrightarrow> fits_prefix [Lit CHR ''2'', Lit CHR ''0''] (drop 6 s)
        \<and> fits_prefix tail_form (drop 8 s)"
    using fits_prefix_append [of "[Lit CHR ''2'', Lit CHR ''0'']" 2 tail_form "drop 6 s"]
    by simp
  ultimately show ?thesis by blast
qed

lemma fits_yy_split:
  "fits_prefix form_yy s \<longleftrightarrow>
     fits_prefix [Digit, Digit, Lit CHR ''-'', Digit, Digit, Lit CHR ''-''] s
     \<and> fits_prefix tail_form (drop 6 s)"
  using fits_prefix_append [of "[Digit, Digit, Lit CHR ''-'', Digit, Digit, Lit CHR ''-'']" 6
      tail_form s]
  by (simp add: tail_form_def form_yy_def)

lemma match_here_closed:
  "match_here s =
     (if fits_prefix form_20yy s then Some (take 2 (drop 11 s) @ take 2 (drop 14 s))
      else if fits_prefix form_yy s then Some (take 2 (drop 9 s) @ take 2 (drop 12 s))
      else None)"
  by (simp add: match_here_def match_time_closed fits_20yy_split fits_yy_split
      match_atoms_closed [where n = 6] match_atoms_closed [where n = 2])


lemma has_form_length: "has_form p d \<Longrightarrow> length d = length p"
  by (simp add: has_form_def list_all2_lengthD)

lemma fits_prefix_iff: "fits_prefix p s \<longleftrightarrow> (\<exists>d r. s = d @ r \<and> has_form p d)"
proof
  assume "fits_prefix p s"
  then have "s = take (length p) s @ drop (length p) s \<and> has_form p (take (length p) s)"
    by (simp add: fits_prefix_def)
  then show "\<exists>d r. s = d @ r \<and> has_form p d" by blast
next
  assume "\<exists>d r. s = d @ r \<and> has_form p d"
  then obtain d r where "s = d @ r" "has_form p d" by blast
  then show "fits_prefix p s"
    using has_form_length [of p d] by (simp add: fits_prefix_def)
qed

lemma fits_prefix_form: "has_form p d \<Longrightarrow> fits_prefix p (d @ r)"
  using fits_prefix_iff by blast

lemma length_forms: "length form_yy = 14" "length form_20yy = 16"
  by (simp_all add: form_yy_def form_20yy_def)

lemma form_exclusive:
  assumes "fits_prefix form_yy s" "fits_prefix form_20yy s"
  shows False
proof -
  have a: "list_all2 atom_ok form_yy (take 14 s)"
    using assms(1) by (simp add: fits_prefix_def has_form_def length_forms)
  have b: "list_all2 atom_ok form_20yy (take 16 s)"
    using assms(2) by (simp add: fits_prefix_def has_form_def length_forms)
  have "atom_ok (form_yy ! 8) (take 14 s ! 8)"
    using a by (rule list_all2_nthD) (simp add: length_forms)
  moreover have "form_yy ! 8 = Lit CHR '' ''" by (simp add: form_yy_def)
  ultimately have "s ! 8 = CHR '' ''" by simp
  moreover have "atom_ok (form_20yy ! 8) (take 16 s ! 8)"
    using b by (rule list_all2_nthD) (simp add: length_forms)
  moreover have "form_20yy ! 8 = Digit" by (simp add: form_20yy_def)
  ultimately have "is_digit CHR '' ''" by simp
  then show False by (simp add: is_digit_def)
qed

lemma hhmm_yy:
  assumes "has_form form_yy d"
  shows "take 2 (drop 9 (d @ r)) @ take 2 (drop 12 (d @ r)) = hhmm d"
  using has_form_length [OF assms] by (simp add: hhmm_def length_forms)

lemma hhmm_20yy:
  assumes "has_form form_20yy d"
  shows "take 2 (drop 11 (d @ r)) @ take 2 (drop 14 (d @ r)) = hhmm d"
  using has_form_length [OF assms] by (simp add: hhmm_def length_forms)

lemma match_here_hit:
  assumes "code_datetime d"
  shows "match_here (d @ post) = Some (hhmm d)"
proof (cases "has_form form_20yy d")
  case True
  then have "fits_prefix form_20yy (d @ post)" by (rule fits_prefix_form)
  then have "match_here (d @ post)
      = Some (take 2 (drop 11 (d @ post)) @ take 2 (drop 14 (d @ post)))"
    by (simp only: match_here_closed if_True)
  then show ?thesis by (simp only: hhmm_20yy [OF True])
next
  case False
  with assms have yy: "has_form form_yy d" by (simp add: code_datetime_def)
  then have fits: "fits_prefix form_yy (d @ post)" by (rule fits_prefix_form)
  then have "\<not> fits_prefix form_20yy (d @ post)"
    using form_exclusive by blast
  with fits have "match_here (d @ post)
      = Some (take 2 (drop 9 (d @ post)) @ take 2 (drop 12 (d @ post)))"
    by (simp only: match_here_closed if_True if_False)
  then show ?thesis by (simp only: hhmm_yy [OF yy])
qed

lemma match_here_occurrence:
  assumes "match_here s = Some g"
  shows "\<exists>d post. s = d @ post \<and> code_datetime d"
proof -
  from assms have "fits_prefix form_20yy s \<or> fits_prefix form_yy s"
    by (auto simp: match_here_closed split: if_splits)
  then show ?thesis
    unfolding fits_prefix_iff code_datetime_def by blast
qed

lemma has_form_digit:
  assumes "has_form p d" "i < length p" "p ! i = Digit"
  shows "is_digit (d ! i)"
proof -
  have "atom_ok (p ! i) (d ! i)"
    using assms(1,2) unfolding has_form_def by (rule list_all2_nthD)
  with assms(3) show ?thesis by simp
qed

lemma take2_nth: "n + 2 \<le> length d \<Longrightarrow> take 2 (drop n d) = [d ! n, d ! Suc n]"
proof -
  assume a: "n + 2 \<le> length d"
  then have "length (drop n d) \<ge> 2" by simp
  then obtain x y r where "drop n d = x # y # r"
    by (cases "drop n d"; cases "tl (drop n d)") auto
  moreover from this have "d ! n = x" "d ! Suc n = y"
    using a nth_drop [of n d 0] nth_drop [of n d 1] by auto
  ultimately show ?thesis by simp
qed

lemma hhmm_digits:
  assumes "code_datetime d"
  shows "length (hhmm d) = 4 \<and> list_all is_digit (hhmm d)"
proof -
  from assms consider "has_form form_yy d" | "has_form form_20yy d"
    by (auto simp: code_datetime_def)
  then show ?thesis
  proof cases
    case 1
    then have len: "length d = 14" using has_form_length by (simp add: length_forms)
    have nth: "form_yy ! 9 = Digit" "form_yy ! 10 = Digit" "form_yy ! 12 = Digit"
        "form_yy ! 13 = Digit"
      by (simp_all add: form_yy_def)
    have "hhmm d = [d ! 9, d ! 10] @ [d ! 12, d ! 13]"
      using len take2_nth [of 9 d] take2_nth [of 12 d] by (simp add: hhmm_def)
    moreover have "is_digit (d ! 9)" "is_digit (d ! 10)" "is_digit (d ! 12)" "is_digit (d ! 13)"
      using 1 nth by (simp_all add: has_form_digit length_forms)
    ultimately show ?thesis by simp
  next
    case 2
    then have len: "length d = 16" using has_form_length by (simp add: length_forms)
    have nth: "form_20yy ! 11 = Digit" "form_20yy ! 12 = Digit" "form_20yy ! 14 = Digit"
        "form_20yy ! 15 = Digit"
      by (simp_all add: form_20yy_def)
    have "hhmm d = [d ! 11, d ! 12] @ [d ! 14, d ! 15]"
      using len take2_nth [of 11 d] take2_nth [of 14 d] by (simp add: hhmm_def)
    moreover have "is_digit (d ! 11)" "is_digit (d ! 12)" "is_digit (d ! 14)" "is_digit (d ! 15)"
      using 2 nth by (simp_all add: has_form_digit length_forms)
    ultimately show ?thesis by simp
  qed
qed

lemma re_search_hit: "match_here s = Some g \<Longrightarrow> re_search s = Some g"
  by (cases s) simp_all

lemma re_search_none:
  "(\<And>pre d post. s = pre @ d @ post \<Longrightarrow> \<not> code_datetime d) \<Longrightarrow> re_search s = None"
proof (induction s)
  case Nil
  have "match_here [] = None"
  proof (cases "match_here []")
    case (Some g)
    then obtain d post where "[] = d @ post" "code_datetime d"
      using match_here_occurrence by blast
    then have "[] = [] @ d @ post" "code_datetime d" by simp_all
    with Nil show ?thesis by blast
  qed simp
  then show ?case by simp
next
  case (Cons c s)
  have here: "match_here (c # s) = None"
  proof (cases "match_here (c # s)")
    case (Some g)
    then obtain d post where "c # s = d @ post" "code_datetime d"
      using match_here_occurrence by blast
    then have "c # s = [] @ d @ post" "code_datetime d" by simp_all
    with Cons.prems show ?thesis by blast
  qed simp
  have "re_search s = None"
  proof (rule Cons.IH)
    fix pre d post
    assume "s = pre @ d @ post"
    then have "c # s = (c # pre) @ d @ post" by simp
    then show "\<not> code_datetime d" by (rule Cons.prems)
  qed
  with here show ?case by simp
qed

lemma re_search_first:
  assumes "code_datetime d"
    and "\<And>pre' d' post'. pre @ d @ post = pre' @ d' @ post' \<Longrightarrow> code_datetime d'
          \<Longrightarrow> length pre \<le> length pre'"
  shows "re_search (pre @ d @ post) = Some (hhmm d)"
  using assms(2)
proof (induction pre)
  case Nil
  show ?case using match_here_hit [OF assms(1)] by (simp add: re_search_hit)
next
  case (Cons c pre)
  have here: "match_here (c # pre @ d @ post) = None"
  proof (cases "match_here (c # pre @ d @ post)")
    case (Some g)
    then obtain d' post' where "c # pre @ d @ post = d' @ post'" "code_datetime d'"
      using match_here_occurrence by blast
    then have "(c # pre) @ d @ post = [] @ d' @ post'" "code_datetime d'" by simp_all
    then have "length (c # pre) \<le> length ([] :: string)" by (rule Cons.prems)
    then show ?thesis by simp
  qed simp
  have "re_search (pre @ d @ post) = Some (hhmm d)"
  proof (rule Cons.IH)
    fix pre' d' post'
    assume "pre @ d @ post = pre' @ d' @ post'" and d': "code_datetime d'"
    then have "(c # pre) @ d @ post = (c # pre') @ d' @ post'" by simp
    then have "length (c # pre) \<le> length (c # pre')" using d' by (rule Cons.prems)
    then show "length pre \<le> length pre'" by simp
  qed
  with here show ?case by simp
qed

lemma code_datetime_hd:
  assumes "code_datetime d"
  shows "d \<noteq> [] \<and> is_digit (hd d)"
proof -
  have z: "form_yy ! 0 = Digit" "form_20yy ! 0 = Digit"
    by (simp_all add: form_yy_def form_20yy_def)
  from assms consider "has_form form_yy d" | "has_form form_20yy d"
    by (auto simp: code_datetime_def)
  then have "0 < length d \<and> is_digit (d ! 0)"
  proof cases
    case 1
    then show ?thesis
      using has_form_length [OF 1] has_form_digit [OF 1, of 0] z by (simp add: length_forms)
  next
    case 2
    then show ?thesis
      using has_form_length [OF 2] has_form_digit [OF 2, of 0] z by (simp add: length_forms)
  qed
  then show ?thesis by (cases d) auto
qed

text \<open>
  C5 (as the code has it): time extraction returns the empty string when the notes
  contain no date-time pattern of the form \<open>DD-MM-YY HH:MM\<close> or \<open>DD-MM-20YY HH:MM\<close>,
  and otherwise the hour and minute digits, a string of four digits, of the occurrence
  that starts first; a four-digit year is matched only when it starts with \<open>20\<close>.
\<close>

theorem extract_time_first_match:
  "((\<forall>pre d post. notes = pre @ d @ post \<longrightarrow> \<not> code_datetime d)
      \<longrightarrow> extract_time notes = [])
   \<and> (notes = pre @ d @ post \<and> code_datetime d
        \<and> (\<forall>pre' d' post'. notes = pre' @ d' @ post' \<and> code_datetime d'
              \<longrightarrow> length pre \<le> length pre')
       \<longrightarrow> extract_time notes = hhmm d \<and> length (extract_time notes) = 4
           \<and> list_all is_digit (extract_time notes))"
proof (intro conjI impI)
  assume "\<forall>pre d post. notes = pre @ d @ post \<longrightarrow> \<not> code_datetime d"
  then have "re_search notes = None" by (intro re_search_none) blast
  then show "extract_time notes = []" by (simp add: extract_time_def)
next
  assume a: "notes = pre @ d @ post \<and> code_datetime d
        \<and> (\<forall>pre' d' post'. notes = pre' @ d' @ post' \<and> code_datetime d'
              \<longrightarrow> length pre \<le> length pre')"
  then have "re_search (pre @ d @ post) = Some (hhmm d)"
    by (intro re_search_first) auto
  with a have e: "extract_time notes = hhmm d" by (simp add: extract_time_def)
  then show "extract_time notes = hhmm d" .
  from e a hhmm_digits [of d] show "length (extract_time notes) = 4" by simp
  from e a hhmm_digits [of d] show "list_all is_digit (extract_time notes)" by simp
qed

theorem extract_time_first_match_witness:
  "extract_time ''geen tijd'' = []
   \<and> extract_time ''x 31-12-2016 23:59 en 05-03-17 14:22'' = ''2359''"
proof -
  have none: "\<forall>pre d post. ''geen tijd'' = pre @ d @ post \<longrightarrow> \<not> code_datetime d"
  proof (intro allI impI notI)
    fix pre d post
    assume eq: "''geen tijd'' = pre @ d @ post" and "code_datetime d"
    then have "d \<noteq> []" "is_digit (hd d)" using code_datetime_hd by blast+
    then have "hd d \<in> set (pre @ d @ post)" by simp
    then have "hd d \<in> set ''geen tijd''" unfolding eq [symmetric] .
    with \<open>is_digit (hd d)\<close> show False by (auto simp: is_digit_def)
  qed
  have first: "\<forall>pre' d' post'. ''x 31-12-2016 23:59 en 05-03-17 14:22'' = pre' @ d' @ post'
        \<and> code_datetime d' \<longrightarrow> length ''x '' \<le> length pre'"
  proof (intro allI impI)
    fix pre' d' post'
    assume a: "''x 31-12-2016 23:59 en 05-03-17 14:22'' = pre' @ d' @ post' \<and> code_datetime d'"
    then have d: "d' \<noteq> []" "is_digit (hd d')" using code_datetime_hd by blast+
    show "length ''x '' \<le> length pre'"
    proof (cases pre')
      case Nil
      with a d(1) have "hd d' = CHR ''x''" by (cases d') auto
      with d(2) show ?thesis by (simp add: is_digit_def)
    next
      case outer: (Cons b t)
      show ?thesis
      proof (cases t)
        case Nil
        with outer a d(1) have "hd d' = CHR '' ''" by (cases d') auto
        with d(2) show ?thesis by (simp add: is_digit_def)
      next
        case (Cons b' t')
        with outer show ?thesis by simp
      qed
    qed
  qed
  have form: "code_datetime ''31-12-2016 23:59''"
    by (simp add: code_datetime_def has_form_def form_yy_def form_20yy_def is_digit_def)
  have split: "''x 31-12-2016 23:59 en 05-03-17 14:22''
      = ''x '' @ ''31-12-2016 23:59'' @ '' en 05-03-17 14:22''" by simp
  from extract_time_first_match [of "''geen tijd''"] none
  have 1: "extract_time ''geen tijd'' = []" by blast
  from extract_time_first_match [of "''x 31-12-2016 23:59 en 05-03-17 14:22''" "''x ''"
      "''31-12-2016 23:59''" "'' en 05-03-17 14:22''"] split form first
  have "extract_time ''x 31-12-2016 23:59 en 05-03-17 14:22'' = hhmm ''31-12-2016 23:59''"
    by blast
  then have 2: "extract_time ''x 31-12-2016 23:59 en 05-03-17 14:22'' = ''2359''"
    by (simp add: hhmm_def)
  from 1 2 show ?thesis by simp
qed

text \<open>
  C5 as stated fails: a date with a four-digit year that does not start with \<open>20\<close> has
  the form \<open>DD-MM-YYYY HH:MM\<close>, and no time is extracted from it.
\<close>

theorem extract_time_four_digit_year_counterexample:
  "spec_datetime ''05-03-1999 14:22'' \<and> extract_time ''05-03-1999 14:22'' = []"
  by (simp add: spec_datetime_def has_form_def form_yy_def form_yyyy_def is_digit_def
      extract_time_def match_here_def match_time_def)

section \<open>Properties of the unique ID assigner\<close>

subsection \<open>Decimal strings are injective, and the loop terminates\<close>

lemma digit_char_inj: "m < 10 \<Longrightarrow> n < 10 \<Longrightarrow> digit_char m = digit_char n \<Longrightarrow> m = n"
proof -
  assume a: "m < 10" "n < 10" "digit_char m = digit_char n"
  have "distinct ''0123456789''" by simp
  moreover have "m < length ''0123456789''" "n < length ''0123456789''" using a by simp_all
  ultimately show "m = n" using a(3) unfolding digit_char_def
    by (simp only: nth_eq_iff_index_eq)
qed

lemma digit_char_digit: "n < 10 \<Longrightarrow> is_digit (digit_char n)"
  unfolding digit_char_def is_digit_def by (rule nth_mem) simp

lemma digits_of_nonempty: "digits_of n \<noteq> []"
  by (subst digits_of.simps) simp

lemma digits_of_digits: "c \<in> set (digits_of n) \<Longrightarrow> is_digit c"
proof (induction n arbitrary: c rule: digits_of.induct)
  case (1 n)
  show ?case
  proof (cases "n < 10")
    case True
    with "1.prems" show ?thesis by (subst (asm) digits_of.simps) (simp add: digit_char_digit)
  next
    case False
    with "1.prems" have "c \<in> set (digits_of (n div 10)) \<or> c = digit_char (n mod 10)"
      by (subst (asm) digits_of.simps) auto
    then show ?thesis using "1.IH" [OF False] by (auto simp: digit_char_digit)
  qed
qed

lemma digits_of_inj: "digits_of m = digits_of n \<Longrightarrow> m = n"
proof (induction m arbitrary: n rule: digits_of.induct)
  case (1 m)
  show ?case
  proof (cases "m < 10")
    case True
    note m = this
    show ?thesis
    proof (cases "n < 10")
      case True
      with m "1.prems" have "digit_char m = digit_char n"
        by (simp add: digits_of.simps [of m] digits_of.simps [of n])
      with m True show ?thesis by (rule digit_char_inj)
    next
      case False
      with m "1.prems" have "[digit_char m] = digits_of (n div 10) @ [digit_char (n mod 10)]"
        by (simp add: digits_of.simps [of m] digits_of.simps [of n])
      then show ?thesis using digits_of_nonempty [of "n div 10"] by simp
    qed
  next
    case False
    note m = this
    show ?thesis
    proof (cases "n < 10")
      case True
      with m "1.prems" have "digits_of (m div 10) @ [digit_char (m mod 10)] = [digit_char n]"
        by (simp add: digits_of.simps [of m] digits_of.simps [of n])
      then show ?thesis using digits_of_nonempty [of "m div 10"] by simp
    next
      case False
      with m "1.prems" have "digits_of (m div 10) @ [digit_char (m mod 10)]
          = digits_of (n div 10) @ [digit_char (n mod 10)]"
        by (simp add: digits_of.simps [of m] digits_of.simps [of n])
      then have eq: "digits_of (m div 10) = digits_of (n div 10)"
          "digit_char (m mod 10) = digit_char (n mod 10)" by simp_all
      from "1.IH" [OF m eq(1)] have "m div 10 = n div 10" .
      moreover have "m mod 10 = n mod 10"
        using eq(2) by (intro digit_char_inj) simp_all
      ultimately show ?thesis by (metis div_mult_mod_eq)
    qed
  qed
qed

lemma str_int_inj: "str_int i = str_int j \<Longrightarrow> i = j"
proof -
  assume a: "str_int i = str_int j"
  have nd: "\<not> is_digit CHR ''-''" by (simp add: is_digit_def)
  have hd: "\<And>n. hd (digits_of n) \<noteq> CHR ''-''"
    using digits_of_digits digits_of_nonempty nd by (metis hd_in_set)
  show "i = j"
  proof (cases "i < 0")
    case True
    note i = this
    show ?thesis
    proof (cases "j < 0")
      case True
      with i a have "nat (- i) = nat (- j)" by (simp add: str_int_def digits_of_inj)
      with i True show ?thesis by simp
    next
      case False
      with i a have "CHR ''-'' # digits_of (nat (- i)) = digits_of (nat j)"
        by (simp add: str_int_def)
      then have "hd (digits_of (nat j)) = CHR ''-''" by (metis list.sel(1))
      with hd show ?thesis by blast
    qed
  next
    case False
    note i = this
    show ?thesis
    proof (cases "j < 0")
      case True
      with i a have "digits_of (nat i) = CHR ''-'' # digits_of (nat (- j))"
        by (simp add: str_int_def)
      then have "hd (digits_of (nat i)) = CHR ''-''" by (metis list.sel(1))
      with hd show ?thesis by blast
    next
      case False
      with i a have "nat i = nat j" by (simp add: str_int_def digits_of_inj)
      with i False show ?thesis by simp
    qed
  qed
qed

lemma str_int_nonempty: "str_int i \<noteq> []"
  by (simp add: str_int_def digits_of_nonempty)

lemma finite_candidates: "finite {k. n < k \<and> f @ str_int k |\<in>| (ids :: string fset)}"
proof -
  have "inj (\<lambda>k. f @ str_int k)" by (rule injI) (simp add: str_int_inj)
  then have "finite ((\<lambda>k. f @ str_int k) -` fset ids)" by (intro finite_vimageI) simp_all
  moreover have "{k. n < k \<and> f @ str_int k |\<in>| ids} \<subseteq> (\<lambda>k. f @ str_int k) -` fset ids"
    by auto
  ultimately show ?thesis by (rule rev_finite_subset)
qed

termination make_unique_id_loop
proof (relation "measure (\<lambda>(fitid, idslist, idcount, unique_id).
    card {k. idcount < k \<and> fitid @ str_int k |\<in>| idslist}
    + (if unique_id |\<in>| idslist then 1 else 0))")
  show "wf (measure (\<lambda>(fitid, idslist, idcount, unique_id).
    card {k. idcount < k \<and> fitid @ str_int k |\<in>| idslist}
    + (if unique_id |\<in>| idslist then 1 else 0)))" by simp
next
  fix fitid :: string and idslist :: "string fset" and idcount :: int and unique_id :: string
  assume u: "unique_id |\<in>| idslist"
  let ?A = "\<lambda>n. {k. n < k \<and> fitid @ str_int k |\<in>| idslist}"
  have sub: "?A (idcount + 1) \<subseteq> ?A idcount" by auto
  have fin: "finite (?A idcount)" by (rule finite_candidates)
  have "card (?A (idcount + 1)) + (if fitid @ str_int (idcount + 1) |\<in>| idslist then 1 else 0)
      \<le> card (?A idcount)"
  proof (cases "fitid @ str_int (idcount + 1) |\<in>| idslist")
    case True
    then have "idcount + 1 \<in> ?A idcount" "idcount + 1 \<notin> ?A (idcount + 1)" by simp_all
    with sub have "?A (idcount + 1) \<subset> ?A idcount" by blast
    with fin have "card (?A (idcount + 1)) < card (?A idcount)" by (rule psubset_card_mono)
    with True show ?thesis by simp
  next
    case False
    with fin sub show ?thesis by (simp add: card_mono)
  qed
  with u show "((fitid, idslist, idcount + 1, fitid @ str_int (idcount + 1)),
      (fitid, idslist, idcount, unique_id)) \<in> measure (\<lambda>(fitid, idslist, idcount, unique_id).
    card {k. idcount < k \<and> fitid @ str_int k |\<in>| idslist}
    + (if unique_id |\<in>| idslist then 1 else 0))"
    by simp
qed

declare make_unique_id_loop.simps [simp del]

subsection \<open>The result of the loop\<close>

lemma str_replace_delete: "str_replace c [] s = filter (\<lambda>x. x \<noteq> c) s"
  by (induction s) (simp_all add: str_replace_def)

lemma make_unique_id_fingerprint:
  "make_unique_id a d t amt ids
   = make_unique_id_loop (fingerprint a d t amt) ids 0 (fingerprint a d t amt)"
  by (simp add: make_unique_id_def fingerprint_def str_replace_delete conj_commute Let_def)

lemma make_unique_id_loop_result:
  "0 \<le> n \<Longrightarrow> u = candidate f n \<Longrightarrow>
   \<exists>m\<ge>n. make_unique_id_loop f ids n u = candidate f m \<and> candidate f m |\<notin>| ids
        \<and> (\<forall>j. n \<le> j \<and> j < m \<longrightarrow> candidate f j |\<in>| ids)"
proof (induction f ids n u rule: make_unique_id_loop.induct)
  case (1 f ids n u)
  note unfold = make_unique_id_loop.simps [of f ids n u]
  show ?case
  proof (cases "u |\<in>| ids")
    case False
    then have "make_unique_id_loop f ids n u = candidate f n"
      using unfold "1.prems"(2) by simp
    moreover have "candidate f n |\<notin>| ids" using False "1.prems"(2) by simp
    moreover have "\<forall>j. n \<le> j \<and> j < n \<longrightarrow> candidate f j |\<in>| ids" by auto
    ultimately show ?thesis by blast
  next
    case True
    have "0 \<le> n + 1" using "1.prems"(1) by simp
    moreover have "f @ str_int (n + 1) = candidate f (n + 1)"
      using "1.prems"(1) by (simp add: candidate_def)
    ultimately have "\<exists>m\<ge>n + 1.
        make_unique_id_loop f ids (n + 1) (f @ str_int (n + 1)) = candidate f m
        \<and> candidate f m |\<notin>| ids
        \<and> (\<forall>j. n + 1 \<le> j \<and> j < m \<longrightarrow> candidate f j |\<in>| ids)"
      by (rule "1.IH" [OF True])
    then obtain m where m: "n + 1 \<le> m"
        "make_unique_id_loop f ids (n + 1) (f @ str_int (n + 1)) = candidate f m"
        "candidate f m |\<notin>| ids"
        "\<forall>j. n + 1 \<le> j \<and> j < m \<longrightarrow> candidate f j |\<in>| ids"
      by blast
    have "\<forall>j. n \<le> j \<and> j < m \<longrightarrow> candidate f j |\<in>| ids"
    proof (intro allI impI)
      fix j assume "n \<le> j \<and> j < m"
      then have "j = n \<or> (n + 1 \<le> j \<and> j < m)" by linarith
      then show "candidate f j |\<in>| ids" using m(4) True "1.prems"(2) by blast
    qed
    moreover have "make_unique_id_loop f ids n u = candidate f m"
      using True m(2) unfold by simp
    moreover have "n \<le> m" using m(1) by simp
    ultimately show ?thesis using m(3) by blast
  qed
qed

lemma make_unique_id_result:
  "\<exists>m\<ge>0. make_unique_id a d t amt ids = candidate (fingerprint a d t amt) m
      \<and> candidate (fingerprint a d t amt) m |\<notin>| ids
      \<and> (\<forall>j. 0 \<le> j \<and> j < m \<longrightarrow> candidate (fingerprint a d t amt) j |\<in>| ids)"
  unfolding make_unique_id_fingerprint
  by (rule make_unique_id_loop_result) (simp_all add: candidate_def)

lemma make_unique_id_fresh: "make_unique_id a d t amt ids |\<notin>| ids"
  using make_unique_id_result [of a d t amt ids] by auto

subsection \<open>The rows of one run\<close>

lemma bind_err_Inr:
  "bind_err m f = Inr y \<longleftrightarrow> (\<exists>v. m = Inr v \<and> f v = Inr y)"
  by (cases m) (simp_all add: bind_err_def)

lemma getitem_Inr: "getitem d k = Inr v \<longleftrightarrow> d k = Some v"
  by (simp add: getitem_def split: option.splits)

lemma row_transaction_Inr:
  assumes "row_transaction row ids = Inr t"
  shows "\<exists>rek code ab ty dat bed naam teg med.
    row ''Rekening'' = Some rek \<and> row ''Code'' = Some code \<and> row ''Af Bij'' = Some ab
    \<and> ing_code_to_trntype code ab = Inr ty \<and> row ''Datum'' = Some dat
    \<and> row ''Bedrag (EUR)'' = Some bed \<and> row ''Naam / Omschrijving'' = Some naam
    \<and> row ''Tegenrekening'' = Some teg \<and> row ''Mededelingen'' = Some med
    \<and> t = \<lparr>account = re_sub_spaces 1 '''' rek, trntype = ty, dtposted = dat,
            trnamt = get_transaction_amount bed ab,
            fitid = make_unique_id teg dat (extract_time (fix_text med))
                      (get_transaction_amount bed ab) ids,
            name = fix_text naam, accountto = teg, memo = fix_text med\<rparr>"
  using assms unfolding row_transaction_def bind_err_Inr getitem_Inr Let_def
  by (elim exE conjE) (simp only: sum.inject, blast)

lemma row_transaction_fitid:
  assumes "row_transaction row ids = Inr t"
  shows "fitid t = make_unique_id (accountto t) (dtposted t) (extract_time (memo t)) (trnamt t) ids"
  using row_transaction_Inr [OF assms] by auto

lemma row_transaction_fresh: "row_transaction row ids = Inr t \<Longrightarrow> fitid t |\<notin>| ids"
  using row_transaction_fitid make_unique_id_fresh by metis

lemma append_entry:
  assumes "(ts(mo \<mapsto> (case ts mo of None \<Rightarrow> [] | Some g \<Rightarrow> g) @ [t])) m = Some l" "i < length l"
  shows "(m = mo \<and> l ! i = t \<and> (\<forall>l0. ts m = Some l0 \<longrightarrow> i = length l0) \<and> (ts m = None \<longrightarrow> i = 0))
       \<or> (\<exists>l0. ts m = Some l0 \<and> i < length l0 \<and> l ! i = l0 ! i)"
proof (cases "m = mo")
  case False
  with assms show ?thesis by simp
next
  case True
  show ?thesis
  proof (cases "ts mo")
    case None
    with True assms show ?thesis by auto
  next
    case (Some g)
    with True assms have l: "l = g @ [t]" by simp
    show ?thesis
    proof (cases "i < length g")
      case True
      with l Some \<open>m = mo\<close> show ?thesis by (simp add: nth_append)
    next
      case False
      with l assms(2) have "i = length g" by simp
      with l Some \<open>m = mo\<close> show ?thesis by simp
    qed
  qed
qed

lemma read_rows_distinct:
  assumes "read_rows sp rows ids ts = Inr ts'"
    and "\<And>m l i. ts m = Some l \<Longrightarrow> i < length l \<Longrightarrow> fitid (l ! i) |\<in>| ids"
    and "\<And>m1 m2 l1 l2 i j. ts m1 = Some l1 \<Longrightarrow> ts m2 = Some l2 \<Longrightarrow> i < length l1
          \<Longrightarrow> j < length l2 \<Longrightarrow> fitid (l1 ! i) = fitid (l2 ! j) \<Longrightarrow> m1 = m2 \<and> i = j"
  shows "\<forall>m1 m2 l1 l2 i j. ts' m1 = Some l1 \<and> ts' m2 = Some l2 \<and> i < length l1
          \<and> j < length l2 \<and> fitid (l1 ! i) = fitid (l2 ! j) \<longrightarrow> m1 = m2 \<and> i = j"
  using assms
proof (induction rows arbitrary: ids ts)
  case Nil
  then show ?case by simp blast
next
  case (Cons row rows)
  from Cons.prems(1) obtain t where t: "row_transaction row ids = Inr t"
    by (cases "row_transaction row ids") simp_all
  define mo where "mo = (if sp then take 6 (dtposted t) else '''')"
  define ts1 where "ts1 = ts(mo \<mapsto> (case ts mo of None \<Rightarrow> [] | Some g \<Rightarrow> g) @ [t])"
  have run: "read_rows sp rows (finsert (fitid t) ids) ts1 = Inr ts'"
    using Cons.prems(1) t by (simp add: mo_def ts1_def Let_def)
  have fresh: "fitid t |\<notin>| ids" using t by (rule row_transaction_fresh)
  note entry = append_entry [of ts mo t, folded ts1_def]
  show ?case
  proof (rule Cons.IH [OF run])
    fix m l i
    assume "ts1 m = Some l" "i < length l"
    from entry [OF this] Cons.prems(2)
    show "fitid (l ! i) |\<in>| finsert (fitid t) ids" by auto
  next
    fix m1 m2 l1 l2 i j
    assume a: "ts1 m1 = Some l1" "ts1 m2 = Some l2" "i < length l1" "j < length l2"
      "fitid (l1 ! i) = fitid (l2 ! j)"
    note e1 = entry [OF a(1,3)] and e2 = entry [OF a(2,4)]
    from e1 show "m1 = m2 \<and> i = j"
    proof
      assume new1: "m1 = mo \<and> l1 ! i = t \<and> (\<forall>l0. ts m1 = Some l0 \<longrightarrow> i = length l0)
          \<and> (ts m1 = None \<longrightarrow> i = 0)"
      from e2 show ?thesis
      proof
        assume "m2 = mo \<and> l2 ! j = t \<and> (\<forall>l0. ts m2 = Some l0 \<longrightarrow> j = length l0)
          \<and> (ts m2 = None \<longrightarrow> j = 0)"
        with new1 show ?thesis by (cases "ts mo") auto
      next
        assume "\<exists>l0. ts m2 = Some l0 \<and> j < length l0 \<and> l2 ! j = l0 ! j"
        then obtain l0 where "ts m2 = Some l0" "j < length l0" "l2 ! j = l0 ! j" by blast
        then have "fitid (l2 ! j) |\<in>| ids" using Cons.prems(2) by metis
        with new1 a(5) fresh show ?thesis by simp
      qed
    next
      assume "\<exists>l0. ts m1 = Some l0 \<and> i < length l0 \<and> l1 ! i = l0 ! i"
      then obtain k1 where k1: "ts m1 = Some k1" "i < length k1" "l1 ! i = k1 ! i" by blast
      then have in1: "fitid (l1 ! i) |\<in>| ids" using Cons.prems(2) by metis
      from e2 show ?thesis
      proof
        assume "m2 = mo \<and> l2 ! j = t \<and> (\<forall>l0. ts m2 = Some l0 \<longrightarrow> j = length l0)
          \<and> (ts m2 = None \<longrightarrow> j = 0)"
        with in1 a(5) fresh show ?thesis by simp
      next
        assume "\<exists>l0. ts m2 = Some l0 \<and> j < length l0 \<and> l2 ! j = l0 ! j"
        then obtain k2 where k2: "ts m2 = Some k2" "j < length k2" "l2 ! j = k2 ! j" by blast
        from a(5) k1(3) k2(3) have "fitid (k1 ! i) = fitid (k2 ! j)" by simp
        from k1(1) k2(1) k1(2) k2(2) this show ?thesis by (rule Cons.prems(3))
      qed
    qed
  qed
qed

text \<open>Evaluation of the example row, alone and after itself.\<close>

lemmas eval_defs = row_transaction_def bind_err_def getitem_def example_row_def
  ing_code_to_trntype_def af_bij_codes_def trn_codes_def get_transaction_amount_def
  str_replace_def fix_text_def strip_def is_space_def extract_time_def match_here_def
  match_time_def is_digit_def make_unique_id_def make_unique_id_loop.simps
  example_transaction_def Let_def

lemma example_first: "row_transaction example_row {||} = Inr (example_transaction ''NL022017030514221234'')"
  by (simp add: eval_defs)

lemma str_int_1: "str_int 1 = ''1''"
  by (simp add: str_int_def digits_of.simps digit_char_def)

lemma example_second:
  "row_transaction example_row {|''NL022017030514221234''|}
   = Inr (example_transaction ''NL0220170305142212341'')"
  by (simp add: eval_defs str_int_1)

lemma example_transaction_sel:
  "fitid (example_transaction u) = u" "dtposted (example_transaction u) = ''20170305''"
  by (simp_all add: example_transaction_def)

lemma example_run:
  "read_csv_file [example_row, example_row] True
   = Inr [''201703'' \<mapsto> [example_transaction ''NL022017030514221234'',
                          example_transaction ''NL0220170305142212341'']]"
  by (simp add: read_csv_file_def example_first example_second example_transaction_sel Let_def)

text \<open>
  C1: in every run the IDs of the transactions are pairwise distinct, over all months.
  The ID of a row is not yet in the used IDs; it is the base fingerprint (counter-account,
  posted date, extracted time, and the amount without \<open>-\<close> and \<open>.\<close>) when that is not
  yet used, and otherwise the fingerprint with the first suffix \<open>1, 2, 3, \<dots>\<close> that gives
  an unused string; the rest of the rows is read with this ID added to the used IDs.
\<close>

theorem unique_ids:
  "(read_csv_file rows sp = Inr ts \<longrightarrow>
      (\<forall>m1 m2 l1 l2 i j. ts m1 = Some l1 \<and> ts m2 = Some l2 \<and> i < length l1 \<and> j < length l2
          \<and> fitid (l1 ! i) = fitid (l2 ! j) \<longrightarrow> m1 = m2 \<and> i = j))
   \<and> (row_transaction row ids = Inr t
        \<and> fp = fingerprint (accountto t) (dtposted t) (extract_time (memo t)) (trnamt t) \<longrightarrow>
      fitid t |\<notin>| ids
      \<and> (fp |\<notin>| ids \<longrightarrow> fitid t = fp)
      \<and> (fp |\<in>| ids \<longrightarrow>
            (\<exists>k\<ge>1. fitid t = fp @ str_int k
               \<and> (\<forall>j. 1 \<le> j \<and> j < k \<longrightarrow> fp @ str_int j |\<in>| ids)))
      \<and> read_rows sp (row # rest) ids tr
          = read_rows sp rest (finsert (fitid t) ids)
              (tr((if sp then take 6 (dtposted t) else '''')
                  \<mapsto> (case tr (if sp then take 6 (dtposted t) else '''') of
                        None \<Rightarrow> [] | Some g \<Rightarrow> g) @ [t])))"
proof (intro conjI impI)
  assume "read_csv_file rows sp = Inr ts"
  then have "read_rows sp rows {||} Map.empty = Inr ts" by (simp add: read_csv_file_def)
  then show "\<forall>m1 m2 l1 l2 i j. ts m1 = Some l1 \<and> ts m2 = Some l2 \<and> i < length l1
      \<and> j < length l2 \<and> fitid (l1 ! i) = fitid (l2 ! j) \<longrightarrow> m1 = m2 \<and> i = j"
    by (rule read_rows_distinct) simp_all
next
  assume a: "row_transaction row ids = Inr t
        \<and> fp = fingerprint (accountto t) (dtposted t) (extract_time (memo t)) (trnamt t)"
  then have id: "fitid t = make_unique_id (accountto t) (dtposted t) (extract_time (memo t))
      (trnamt t) ids"
    using row_transaction_fitid by blast
  from make_unique_id_result [of "accountto t" "dtposted t" "extract_time (memo t)" "trnamt t" ids]
  obtain k where k: "0 \<le> k" "fitid t = candidate fp k" "candidate fp k |\<notin>| ids"
      "\<forall>j. 0 \<le> j \<and> j < k \<longrightarrow> candidate fp j |\<in>| ids"
    using a id by auto
  show "fitid t |\<notin>| ids" using k(2,3) by simp
  show "fitid t = fp" if "fp |\<notin>| ids"
  proof (cases "k = 0")
    case True
    with k(2) show ?thesis by (simp add: candidate_def)
  next
    case False
    with k(1,4) have "candidate fp 0 |\<in>| ids" by simp
    with that show ?thesis by (simp add: candidate_def)
  qed
  show "\<exists>k\<ge>1. fitid t = fp @ str_int k \<and> (\<forall>j. 1 \<le> j \<and> j < k \<longrightarrow> fp @ str_int j |\<in>| ids)"
    if "fp |\<in>| ids"
  proof -
    have "k \<noteq> 0" using that k(3) by (auto simp: candidate_def)
    with k(1) have k1: "1 \<le> k" by simp
    then have "fitid t = fp @ str_int k" using k(2) by (simp add: candidate_def)
    moreover have "\<forall>j. 1 \<le> j \<and> j < k \<longrightarrow> fp @ str_int j |\<in>| ids"
    proof (intro allI impI)
      fix j :: int assume j: "1 \<le> j \<and> j < k"
      then have "candidate fp j |\<in>| ids" using k(4) by simp
      with j show "fp @ str_int j |\<in>| ids" by (simp add: candidate_def)
    qed
    ultimately show ?thesis using k1 by blast
  qed
  show "read_rows sp (row # rest) ids tr
          = read_rows sp rest (finsert (fitid t) ids)
              (tr((if sp then take 6 (dtposted t) else '''')
                  \<mapsto> (case tr (if sp then take 6 (dtposted t) else '''') of
                        None \<Rightarrow> [] | Some g \<Rightarrow> g) @ [t]))"
    using a by (simp add: Let_def)
qed

theorem unique_ids_witness:
  "read_csv_file [example_row, example_row] True
     = Inr [''201703'' \<mapsto> [example_transaction ''NL022017030514221234'',
                            example_transaction ''NL0220170305142212341'']]
   \<and> fitid (example_transaction ''NL022017030514221234'')
       \<noteq> fitid (example_transaction ''NL0220170305142212341'')
   \<and> row_transaction example_row {|''NL022017030514221234''|}
       = Inr (example_transaction ''NL0220170305142212341'')
   \<and> ''NL0220170305142212341'' |\<notin>| {|''NL022017030514221234''|}
   \<and> (\<exists>k\<ge>1. ''NL0220170305142212341'' = ''NL022017030514221234'' @ str_int k)"
proof -
  let ?t1 = "example_transaction ''NL022017030514221234''"
  let ?t2 = "example_transaction ''NL0220170305142212341''"
  let ?ts = "[''201703'' \<mapsto> [?t1, ?t2]]"
  note run = example_run
  note second = example_second
  have fp: "''NL022017030514221234''
      = fingerprint (accountto ?t2) (dtposted ?t2) (extract_time (memo ?t2)) (trnamt ?t2)"
    by (simp add: fingerprint_def example_transaction_def extract_time_def match_here_def
        match_time_def is_digit_def)
  from unique_ids [of "[example_row, example_row]" True ?ts example_row
      "{|''NL022017030514221234''|}" ?t2 "''NL022017030514221234''"] run second fp
  have all: "\<forall>m1 m2 l1 l2 i j. ?ts m1 = Some l1 \<and> ?ts m2 = Some l2 \<and> i < length l1
        \<and> j < length l2 \<and> fitid (l1 ! i) = fitid (l2 ! j) \<longrightarrow> m1 = m2 \<and> i = j"
    and fresh: "fitid ?t2 |\<notin>| {|''NL022017030514221234''|}"
    and suffix: "''NL022017030514221234'' |\<in>| {|''NL022017030514221234''|} \<longrightarrow>
        (\<exists>k\<ge>1. fitid ?t2 = ''NL022017030514221234'' @ str_int k
           \<and> (\<forall>j. 1 \<le> j \<and> j < k
                \<longrightarrow> ''NL022017030514221234'' @ str_int j |\<in>| {|''NL022017030514221234''|}))"
    by blast+
  from all have "?ts ''201703'' = Some [?t1, ?t2] \<and> ?ts ''201703'' = Some [?t1, ?t2]
      \<and> (0::nat) < length [?t1, ?t2] \<and> (1::nat) < length [?t1, ?t2]
      \<and> fitid ([?t1, ?t2] ! 0) = fitid ([?t1, ?t2] ! 1) \<longrightarrow> ''201703'' = ''201703'' \<and> (0::nat) = 1"
    by blast
  then have distinct: "fitid ?t1 \<noteq> fitid ?t2" by simp
  from suffix have "\<exists>k\<ge>1. ''NL0220170305142212341'' = ''NL022017030514221234'' @ str_int k"
    by (auto simp: example_transaction_sel)
  moreover from fresh have "''NL0220170305142212341'' |\<notin>| {|''NL022017030514221234''|}"
    by (simp add: example_transaction_sel)
  ultimately show ?thesis using run second distinct by blast
qed

section \<open>Properties of the transaction fields\<close>

lemma re_sub_spaces_delete: "re_sub_spaces 1 [] s = filter (\<lambda>c. c \<noteq> CHR '' '') s"
proof (induction s rule: length_induct)
  case (1 s)
  show ?case
  proof (cases s)
    case Nil
    then show ?thesis by simp
  next
    case (Cons c cs)
    show ?thesis
    proof (cases "c = CHR '' ''")
      case True
      have "length (dropWhile (\<lambda>x. x = CHR '' '') cs) < length s"
        using Cons by (simp add: length_dropWhile_le less_Suc_eq_le)
      with 1 have "re_sub_spaces 1 [] (dropWhile (\<lambda>x. x = CHR '' '') cs)
          = filter (\<lambda>c. c \<noteq> CHR '' '') (dropWhile (\<lambda>x. x = CHR '' '') cs)" by blast
      also have "\<dots> = filter (\<lambda>c. c \<noteq> CHR '' '') cs"
        by (rule filter_dropWhile) simp
      finally show ?thesis using Cons True by simp
    next
      case False
      have "length cs < length s" using Cons by simp
      with 1 have "re_sub_spaces 1 [] cs = filter (\<lambda>c. c \<noteq> CHR '' '') cs" by blast
      with Cons False show ?thesis by simp
    qed
  qed
qed

text \<open>
  C9 (as the code has it): the account of the transaction is the raw account identifier
  with every space removed, the leading, the trailing and the interior ones; every other
  character, other whitespace included, is kept.
\<close>

theorem account_spaces_removed:
  assumes "row_transaction row ids = Inr t" and "row ''Rekening'' = Some rek"
  shows "account t = filter (\<lambda>c. c \<noteq> CHR '' '') rek"
  using row_transaction_Inr [OF assms(1)] assms(2)
  by (auto simp: re_sub_spaces_delete [unfolded One_nat_def])

theorem account_spaces_removed_witness:
  "row_transaction example_row {||} = Inr (example_transaction ''NL022017030514221234'')
   \<and> example_row ''Rekening'' = Some ''NL01 INGB 0001''
   \<and> account (example_transaction ''NL022017030514221234'')
       = filter (\<lambda>c. c \<noteq> CHR '' '') ''NL01 INGB 0001''"
proof -
  have rek: "example_row ''Rekening'' = Some ''NL01 INGB 0001''"
    by (simp add: example_row_def)
  from account_spaces_removed [OF example_first rek] example_first rek
  show ?thesis by blast
qed

text \<open>
  C9 as stated fails: the spaces inside the account identifier are removed too, so the
  account is not the stripped identifier.
\<close>

theorem account_interior_spaces_counterexample:
  "example_row ''Rekening'' = Some ''NL01 INGB 0001''
   \<and> row_transaction example_row {||} = Inr (example_transaction ''NL022017030514221234'')
   \<and> account (example_transaction ''NL022017030514221234'') = ''NL01INGB0001''
   \<and> strip ''NL01 INGB 0001'' = ''NL01 INGB 0001''"
  by (simp add: eval_defs)

text \<open>
  C10: the time that enters the ID of a row is extracted from the sanitized memo, not
  from the raw notes; a date and a time that two spaces separate in the notes are one
  space apart in the memo, and the time \<open>1422\<close> is extracted, while the raw notes give
  no time.
\<close>

theorem time_from_sanitized_memo:
  "(row_transaction row ids = Inr t \<and> row ''Mededelingen'' = Some notes \<longrightarrow>
      memo t = fix_text notes
      \<and> fitid t = make_unique_id (accountto t) (dtposted t) (extract_time (fix_text notes))
                    (trnamt t) ids)
   \<and> extract_time (fix_text ''05-03-17  14:22'') = ''1422''
   \<and> extract_time ''05-03-17  14:22'' = []"
proof (intro conjI impI)
  assume a: "row_transaction row ids = Inr t \<and> row ''Mededelingen'' = Some notes"
  with row_transaction_Inr [of row ids t] show m: "memo t = fix_text notes" by auto
  from a row_transaction_fitid [of row ids t] m
  show "fitid t = make_unique_id (accountto t) (dtposted t) (extract_time (fix_text notes))
                    (trnamt t) ids" by simp
next
  show "extract_time (fix_text ''05-03-17  14:22'') = ''1422''"
    by (simp add: fix_text_def strip_def str_replace_def is_space_def extract_time_def
        match_here_def match_time_def is_digit_def)
  show "extract_time ''05-03-17  14:22'' = []"
    by (simp add: extract_time_def match_here_def match_time_def is_digit_def)
qed

theorem time_from_sanitized_memo_witness:
  "row_transaction example_row {||} = Inr (example_transaction ''NL022017030514221234'')
   \<and> example_row ''Mededelingen'' = Some ''Pas 05-03-17  14:22 <x>''
   \<and> memo (example_transaction ''NL022017030514221234'') = fix_text ''Pas 05-03-17  14:22 <x>''
   \<and> extract_time (fix_text ''Pas 05-03-17  14:22 <x>'') = ''1422''
   \<and> extract_time ''Pas 05-03-17  14:22 <x>'' = []
   \<and> fitid (example_transaction ''NL022017030514221234'')
       = make_unique_id ''NL02'' ''20170305'' ''1422'' ''-12.34'' {||}"
proof -
  let ?t = "example_transaction ''NL022017030514221234''"
  have med: "example_row ''Mededelingen'' = Some ''Pas 05-03-17  14:22 <x>''"
    by (simp add: example_row_def)
  from time_from_sanitized_memo [of example_row "{||}" ?t "''Pas 05-03-17  14:22 <x>''"]
    example_first med
  have m: "memo ?t = fix_text ''Pas 05-03-17  14:22 <x>''"
    and f: "fitid ?t = make_unique_id (accountto ?t) (dtposted ?t)
        (extract_time (fix_text ''Pas 05-03-17  14:22 <x>'')) (trnamt ?t) {||}"
    by blast+
  have e: "extract_time (fix_text ''Pas 05-03-17  14:22 <x>'') = ''1422''"
    by (simp add: fix_text_def strip_def str_replace_def is_space_def extract_time_def
        match_here_def match_time_def is_digit_def)
  have r: "extract_time ''Pas 05-03-17  14:22 <x>'' = []"
    by (simp add: extract_time_def match_here_def match_time_def is_digit_def)
  from f e have "fitid ?t = make_unique_id ''NL02'' ''20170305'' ''1422'' ''-12.34'' {||}"
    by (simp add: example_transaction_def)
  with example_first med m e r show ?thesis by blast
qed

section \<open>Properties of the statement renderer\<close>

subsection \<open>The date range\<close>

lemma min_loop_Inr: "min_loop m (map Inr xs) = Inr (fold min xs m)"
proof (induction xs arbitrary: m)
  case Nil
  show ?case by simp
next
  case (Cons x xs)
  have "(if x < m then x else m) = min x m" by (simp add: min_def)
  then show ?case using Cons.IH by (simp add: bind_err_def)
qed

lemma max_loop_Inr: "max_loop m (map Inr xs) = Inr (fold max xs m)"
proof (induction xs arbitrary: m)
  case Nil
  show ?case by simp
next
  case (Cons x xs)
  have "(if x > m then x else m) = max x m" by (simp add: max_def)
  then show ?case using Cons.IH by (simp add: bind_err_def)
qed

lemma py_min_Inr: "xs \<noteq> [] \<Longrightarrow> py_min (map Inr xs) = Inr (Min (set xs))"
proof (cases xs)
  case (Cons x r)
  then show ?thesis
    using Min.set_eq_fold [of x r] by (simp add: bind_err_def min_loop_Inr)
qed simp

lemma py_max_Inr: "xs \<noteq> [] \<Longrightarrow> py_max (map Inr xs) = Inr (Max (set xs))"
proof (cases xs)
  case (Cons x r)
  then show ?thesis
    using Max.set_eq_fold [of x r] by (simp add: bind_err_def max_loop_Inr)
qed simp

lemma py_int_posted:
  "length (dtposted t) = 8 \<Longrightarrow> list_all is_digit (dtposted t)
   \<Longrightarrow> py_int other (dtposted t) = Inr (posted_int t)"
  by (auto simp: py_int_def posted_int_def)

lemma py_int_dates:
  assumes "list_all (\<lambda>t. length (dtposted t) = 8 \<and> list_all is_digit (dtposted t)) ts"
  shows "map (\<lambda>t. py_int other (dtposted t)) ts = map Inr (map posted_int ts)"
  using assms by (induction ts) (simp_all add: py_int_posted)

lemma find_date_range_dates:
  assumes "ts \<noteq> []"
    and "list_all (\<lambda>t. length (dtposted t) = 8 \<and> list_all is_digit (dtposted t)) ts"
  shows "find_date_range other ts
    = Inr (Min (posted_int ` set ts), Max (posted_int ` set ts))"
proof -
  have ne: "map posted_int ts \<noteq> []" using assms(1) by simp
  have mn: "py_min (map Inr (map posted_int ts)) = Inr (Min (posted_int ` set ts))"
    using py_min_Inr [OF ne] by simp
  have mx: "py_max (map Inr (map posted_int ts)) = Inr (Max (posted_int ` set ts))"
    using py_max_Inr [OF ne] by simp
  show ?thesis
    unfolding find_date_range_def py_int_dates [OF assms(2)] mn mx
    by (simp add: bind_err_def)
qed

subsection \<open>The text that is written\<close>

lemma make_header_text: "make_header today = ofx_header today"
  by (simp add: make_header_def MESSAGE_HEADER_TEMPLATE_def ofx_header_def ofx_tag_def)

lemma make_message_start_text:
  "make_message_start acct mn mx = ofx_block_open acct (str_int mn) (str_int mx)"
  by (simp add: make_message_start_def MESSAGE_BEGIN_TEMPLATE_def ofx_block_open_def ofx_tag_def)

lemma make_transaction_text: "make_transaction t = ofx_transaction t"
  by (simp add: make_transaction_def MESSAGE_TRANSACTION_TEMPLATE_def ofx_transaction_def
      ofx_tag_def)

lemma make_message_end_text: "make_message_end = ofx_block_close"
  by (simp add: make_message_end_def MESSAGE_END_TEMPLATE_def ofx_block_close_def)

lemma make_footer_text: "make_footer = ofx_footer"
  by (simp add: make_footer_def MESSAGE_FOOTER_TEMPLATE_def ofx_footer_def)

lemma write_transactions_concat:
  "write_transactions ts f = f @ concat (map ofx_transaction ts)"
  by (induction ts arbitrary: f) (simp_all add: make_transaction_text)

lemma write_accounts_concat:
  "write_accounts accts mn mx ts f
   = f @ concat (map (statement_block (str_int mn) (str_int mx) ts) accts)"
  by (induction accts arbitrary: f)
     (simp_all add: write_transactions_concat statement_block_def Let_def
        make_message_start_text make_message_end_text)

lemma write_ofx_file_text:
  assumes "ts \<noteq> []"
    and "list_all (\<lambda>t. length (dtposted t) = 8 \<and> list_all is_digit (dtposted t)) ts"
  shows "write_ofx_file other today accts ts f
      = Inr (f @ ofx_header today
             @ concat (map (statement_block (str_int (Min (posted_int ` set ts)))
                              (str_int (Max (posted_int ` set ts))) ts) accts)
             @ ofx_footer)"
  by (simp add: write_ofx_file_def find_date_range_dates [OF assms] bind_err_def
      write_accounts_concat make_header_text make_footer_text)

subsection \<open>The period, read back as a number and as a posted date\<close>

lemma digit_val_char: "is_digit c \<Longrightarrow> digit_val c < 10 \<and> digit_char (digit_val c) = c"
  by (auto simp: is_digit_def digit_val_def digit_char_def)

lemma digit_char_val: "n < 10 \<Longrightarrow> digit_val (digit_char n) = n"
proof -
  assume "n < 10"
  then have "n \<in> {0, 1, 2, 3, 4, 5, 6, 7, 8, 9}" by auto
  then show ?thesis by (auto simp: digit_val_def digit_char_def)
qed

lemma digit_val_zero: "is_digit c \<Longrightarrow> digit_val c = 0 \<Longrightarrow> c = CHR ''0''"
  by (auto simp: is_digit_def digit_val_def)

lemma dec_val_snoc: "dec_val (s @ [c]) = 10 * dec_val s + digit_val c"
  by (simp add: dec_val_def)

lemma dec_val_digits_of: "dec_val (digits_of n) = n"
proof (induction n rule: digits_of.induct)
  case (1 n)
  show ?case
  proof (cases "n < 10")
    case True
    then show ?thesis
      by (simp add: digits_of.simps [of n] dec_val_def digit_char_val)
  next
    case False
    then have "dec_val (digits_of n) = 10 * dec_val (digits_of (n div 10)) + digit_val (digit_char (n mod 10))"
      by (simp add: digits_of.simps [of n] dec_val_snoc)
    also have "\<dots> = 10 * (n div 10) + n mod 10"
      using "1.IH" [OF False] by (simp add: digit_char_val)
    finally show ?thesis by simp
  qed
qed

lemma py_int_str_int: "0 \<le> i \<Longrightarrow> py_int other (str_int i) = Inr i"
proof -
  assume "0 \<le> i"
  then have s: "str_int i = digits_of (nat i)" by (simp add: str_int_def)
  have "list_all is_digit (digits_of (nat i))"
    using digits_of_digits by (auto simp: list_all_iff)
  then show ?thesis
    using \<open>0 \<le> i\<close> by (simp add: s py_int_def digits_of_nonempty dec_val_digits_of)
qed

lemma dec_val_pos:
  "s \<noteq> [] \<Longrightarrow> list_all is_digit s \<Longrightarrow> hd s \<noteq> CHR ''0'' \<Longrightarrow> 0 < dec_val s"
proof (induction s rule: rev_induct)
  case Nil
  then show ?case by simp
next
  case (snoc c r)
  show ?case
  proof (cases "r = []")
    case True
    with snoc.prems have "is_digit c" "c \<noteq> CHR ''0''" by simp_all
    then have "digit_val c \<noteq> 0" using digit_val_zero by blast
    with True show ?thesis by (simp add: dec_val_def)
  next
    case False
    with snoc have "0 < dec_val r" by simp
    then show ?thesis by (simp add: dec_val_snoc)
  qed
qed

lemma digits_of_dec_val:
  "s \<noteq> [] \<Longrightarrow> list_all is_digit s \<Longrightarrow> hd s \<noteq> CHR ''0'' \<Longrightarrow> digits_of (dec_val s) = s"
proof (induction s rule: rev_induct)
  case Nil
  then show ?case by simp
next
  case (snoc c r)
  from snoc.prems have c: "is_digit c" by simp
  then have d: "digit_val c < 10" "digit_char (digit_val c) = c"
    using digit_val_char by blast+
  show ?case
  proof (cases "r = []")
    case True
    then have "dec_val (r @ [c]) = digit_val c" by (simp add: dec_val_def)
    with d True show ?thesis by (simp add: digits_of.simps [of "digit_val c"])
  next
    case False
    with snoc.prems have r: "list_all is_digit r" "hd r \<noteq> CHR ''0''" by simp_all
    from snoc.IH [OF False r] have ih: "digits_of (dec_val r) = r" .
    from dec_val_pos [OF False r] have pos: "0 < dec_val r" .
    let ?n = "10 * dec_val r + digit_val c"
    have "\<not> ?n < 10" using pos by simp
    moreover have "?n div 10 = dec_val r" "?n mod 10 = digit_val c" using d(1) by simp_all
    ultimately have "digits_of ?n = digits_of (dec_val r) @ [digit_char (digit_val c)]"
      by (simp add: digits_of.simps [of ?n])
    with ih d(2) show ?thesis by (simp add: dec_val_snoc)
  qed
qed

lemma str_int_posted:
  assumes "length (dtposted t) = 8" "list_all is_digit (dtposted t)" "hd (dtposted t) \<noteq> CHR ''0''"
  shows "str_int (posted_int t) = dtposted t"
proof -
  have "dtposted t \<noteq> []" using assms(1) by auto
  then show ?thesis
    using assms(2,3) by (simp add: str_int_def posted_int_def digits_of_dec_val)
qed

lemma period_of_group:
  assumes "ts \<noteq> []"
    and "list_all (\<lambda>t. length (dtposted t) = 8 \<and> list_all is_digit (dtposted t)) ts"
  shows "\<exists>tmin tmax. tmin \<in> set ts \<and> tmax \<in> set ts
      \<and> Min (posted_int ` set ts) = posted_int tmin
      \<and> Max (posted_int ` set ts) = posted_int tmax
      \<and> py_int other (str_int (Min (posted_int ` set ts))) = py_int other (dtposted tmin)
      \<and> py_int other (str_int (Max (posted_int ` set ts))) = py_int other (dtposted tmax)
      \<and> (list_all (\<lambda>t. hd (dtposted t) \<noteq> CHR ''0'') ts \<longrightarrow>
            str_int (Min (posted_int ` set ts)) = dtposted tmin
            \<and> str_int (Max (posted_int ` set ts)) = dtposted tmax)"
proof -
  have fin: "finite (posted_int ` set ts)" "posted_int ` set ts \<noteq> {}"
    using assms(1) by simp_all
  from Min_in [OF fin] obtain tmin where tmin: "tmin \<in> set ts"
      "Min (posted_int ` set ts) = posted_int tmin" by auto
  from Max_in [OF fin] obtain tmax where tmax: "tmax \<in> set ts"
      "Max (posted_int ` set ts) = posted_int tmax" by auto
  have d: "\<And>t. t \<in> set ts \<Longrightarrow> length (dtposted t) = 8 \<and> list_all is_digit (dtposted t)"
    using assms(2) by (auto simp: list_all_iff)
  have nonneg: "\<And>t. 0 \<le> posted_int t" by (simp add: posted_int_def)
  have numeric: "\<And>t. t \<in> set ts \<Longrightarrow> py_int other (str_int (posted_int t)) = py_int other (dtposted t)"
    using d nonneg by (simp add: py_int_str_int py_int_posted)
  have same: "list_all (\<lambda>t. hd (dtposted t) \<noteq> CHR ''0'') ts \<Longrightarrow> t \<in> set ts
      \<Longrightarrow> str_int (posted_int t) = dtposted t" for t
    using d [of t] by (intro str_int_posted) (auto simp: list_all_iff)
  show ?thesis
    using tmin tmax numeric [OF tmin(1)] numeric [OF tmax(1)] same [OF _ tmin(1)] same [OF _ tmax(1)]
    by (intro exI [of _ tmin] exI [of _ tmax]) simp
qed

subsection \<open>The statement blocks of a group\<close>

lemma example_posting_sel:
  "account (example_posting a d u) = a" "dtposted (example_posting a d u) = d"
  by (simp_all add: example_posting_def)

lemma dec_val_examples:
  "dec_val ''20170215'' = 20170215" "dec_val ''20170101'' = 20170101"
  "dec_val ''20170102'' = 20170102" "dec_val ''00000101'' = 101"
  by (simp_all add: dec_val_def digit_val_def)

lemma str_int_101: "str_int 101 = ''101''"
  by (simp add: str_int_def digits_of.simps digit_char_def)

text \<open>
  C8 (as the code has it): for a non-empty group whose posted dates are strings of eight
  digits, and an enumeration of its distinct accounts, the renderer succeeds and writes
  the header, one statement block per account and the footer. The block of an account
  has that account in \<open>ACCTID\<close> and holds the entries of exactly the transactions of that
  account, in their original order. In every block \<open>DTSTART\<close> and \<open>DTEND\<close> are the
  decimals of the least and of the greatest posted date of the whole group, compared as
  numbers: read as numbers they are the posted dates of two transactions of the group,
  and they are those posted dates as text when no posted date starts with \<open>0\<close>.
\<close>

theorem write_ofx_file_blocks:
  assumes "transactions \<noteq> []"
    and "list_all (\<lambda>t. length (dtposted t) = 8 \<and> list_all is_digit (dtposted t)) transactions"
    and "distinct accounts" and "set accounts = find_accounts transactions"
  shows "write_ofx_file int_other today_str accounts transactions ofxfile
      = Inr (ofxfile @ ofx_header today_str
             @ concat (map (statement_block (str_int (Min (posted_int ` set transactions)))
                              (str_int (Max (posted_int ` set transactions))) transactions)
                         accounts)
             @ ofx_footer)
    \<and> length accounts = card (account ` set transactions)
    \<and> (\<exists>tmin tmax. tmin \<in> set transactions \<and> tmax \<in> set transactions
          \<and> Min (posted_int ` set transactions) = posted_int tmin
          \<and> Max (posted_int ` set transactions) = posted_int tmax
          \<and> py_int int_other (str_int (Min (posted_int ` set transactions)))
              = py_int int_other (dtposted tmin)
          \<and> py_int int_other (str_int (Max (posted_int ` set transactions)))
              = py_int int_other (dtposted tmax)
          \<and> (list_all (\<lambda>t. hd (dtposted t) \<noteq> CHR ''0'') transactions \<longrightarrow>
                str_int (Min (posted_int ` set transactions)) = dtposted tmin
                \<and> str_int (Max (posted_int ` set transactions)) = dtposted tmax))"
proof -
  have "length accounts = card (set accounts)"
    using assms(3) by (simp add: distinct_card)
  then have "length accounts = card (account ` set transactions)"
    using assms(4) by (simp add: find_accounts_def)
  with write_ofx_file_text [OF assms(1,2)] period_of_group [OF assms(1,2)]
  show ?thesis by blast
qed

theorem write_ofx_file_blocks_witness:
  "[example_posting ''A'' ''20170215'' ''x'', example_posting ''B'' ''20170101'' ''y'',
    example_posting ''A'' ''20170102'' ''z''] \<noteq> []
   \<and> list_all (\<lambda>t. length (dtposted t) = 8 \<and> list_all is_digit (dtposted t))
        [example_posting ''A'' ''20170215'' ''x'', example_posting ''B'' ''20170101'' ''y'',
         example_posting ''A'' ''20170102'' ''z'']
   \<and> distinct [''B'', ''A'']
   \<and> set [''B'', ''A'']
       = find_accounts [example_posting ''A'' ''20170215'' ''x'',
           example_posting ''B'' ''20170101'' ''y'', example_posting ''A'' ''20170102'' ''z'']
   \<and> write_ofx_file int_rejects ''20261103'' [''B'', ''A'']
        [example_posting ''A'' ''20170215'' ''x'', example_posting ''B'' ''20170101'' ''y'',
         example_posting ''A'' ''20170102'' ''z''] []
       = Inr (ofx_header ''20261103''
              @ ofx_block_open ''B'' (str_int 20170101) (str_int 20170215)
              @ ofx_transaction (example_posting ''B'' ''20170101'' ''y'')
              @ ofx_block_close
              @ ofx_block_open ''A'' (str_int 20170101) (str_int 20170215)
              @ ofx_transaction (example_posting ''A'' ''20170215'' ''x'')
              @ ofx_transaction (example_posting ''A'' ''20170102'' ''z'')
              @ ofx_block_close
              @ ofx_footer)
   \<and> list_all (\<lambda>t. hd (dtposted t) \<noteq> CHR ''0'')
        [example_posting ''A'' ''20170215'' ''x'', example_posting ''B'' ''20170101'' ''y'',
         example_posting ''A'' ''20170102'' ''z'']
   \<and> str_int 20170101 \<in> set [''20170215'', ''20170101'', ''20170102'']
   \<and> str_int 20170215 \<in> set [''20170215'', ''20170101'', ''20170102'']"
proof -
  let ?ts = "[example_posting ''A'' ''20170215'' ''x'', example_posting ''B'' ''20170101'' ''y'',
    example_posting ''A'' ''20170102'' ''z'']"
  have ne: "?ts \<noteq> []" by simp
  have dates: "list_all (\<lambda>t. length (dtposted t) = 8 \<and> list_all is_digit (dtposted t)) ?ts"
    by (simp add: example_posting_sel is_digit_def)
  have dist: "distinct [''B'', ''A'']" by simp
  have accts: "set [''B'', ''A''] = find_accounts ?ts"
    by (auto simp: find_accounts_def example_posting_sel)
  have nz: "list_all (\<lambda>t. hd (dtposted t) \<noteq> CHR ''0'') ?ts"
    by (simp add: example_posting_sel)
  have mn: "Min (posted_int ` set ?ts) = 20170101"
    by (simp add: posted_int_def example_posting_sel dec_val_examples)
  have mx: "Max (posted_int ` set ?ts) = 20170215"
    by (simp add: posted_int_def example_posting_sel dec_val_examples)
  note inst = write_ofx_file_blocks [OF ne dates dist accts, of int_rejects
      "''20261103''" "[]", unfolded mn mx]
  from inst have out: "write_ofx_file int_rejects ''20261103'' [''B'', ''A''] ?ts []
      = Inr (ofx_header ''20261103''
              @ ofx_block_open ''B'' (str_int 20170101) (str_int 20170215)
              @ ofx_transaction (example_posting ''B'' ''20170101'' ''y'')
              @ ofx_block_close
              @ ofx_block_open ''A'' (str_int 20170101) (str_int 20170215)
              @ ofx_transaction (example_posting ''A'' ''20170215'' ''x'')
              @ ofx_transaction (example_posting ''A'' ''20170102'' ''z'')
              @ ofx_block_close
              @ ofx_footer)"
    by (simp add: statement_block_def example_posting_sel)
  from inst nz obtain tmin tmax where "tmin \<in> set ?ts" "tmax \<in> set ?ts"
      "str_int 20170101 = dtposted tmin" "str_int 20170215 = dtposted tmax"
    by blast
  then have "str_int 20170101 \<in> set [''20170215'', ''20170101'', ''20170102'']"
    "str_int 20170215 \<in> set [''20170215'', ''20170101'', ''20170102'']"
    by (auto simp: example_posting_sel)
  with ne dates dist accts out nz show ?thesis by blast
qed

text \<open>
  C8 as stated fails: the period is written as the decimal of a number, without leading
  zeros, so for the posted date \<open>00000101\<close> the period that is written is \<open>101\<close> and not
  that posted date.
\<close>

theorem write_ofx_file_leading_zero_counterexample:
  "length (dtposted (example_posting ''A'' ''00000101'' ''x'')) = 8
   \<and> list_all is_digit (dtposted (example_posting ''A'' ''00000101'' ''x''))
   \<and> write_ofx_file int_rejects ''20261103'' [''A''] [example_posting ''A'' ''00000101'' ''x''] []
       = Inr (ofx_header ''20261103''
              @ ofx_block_open ''A'' ''101'' ''101''
              @ ofx_transaction (example_posting ''A'' ''00000101'' ''x'')
              @ ofx_block_close
              @ ofx_footer)
   \<and> dtposted (example_posting ''A'' ''00000101'' ''x'') = ''00000101''
   \<and> ''101'' \<noteq> ''00000101''"
proof -
  let ?t = "example_posting ''A'' ''00000101'' ''x''"
  have d: "length (dtposted ?t) = 8" "list_all is_digit (dtposted ?t)"
    by (simp_all add: example_posting_sel is_digit_def)
  then have dates: "list_all (\<lambda>t. length (dtposted t) = 8 \<and> list_all is_digit (dtposted t)) [?t]"
    by simp
  have p: "posted_int ?t = 101"
    by (simp add: posted_int_def example_posting_sel dec_val_examples)
  have "write_ofx_file int_rejects ''20261103'' [''A''] [?t] []
      = Inr (ofx_header ''20261103''
              @ ofx_block_open ''A'' ''101'' ''101''
              @ ofx_transaction ?t
              @ ofx_block_close
              @ ofx_footer)"
    using write_ofx_file_text [OF _ dates, of int_rejects "''20261103''" "[''A'']" "[]"]
    by (simp add: p str_int_101 statement_block_def example_posting_sel)
  with d show ?thesis by (simp add: example_posting_sel)
qed

end
